theory Spec2Isabelle
  imports Complex_Main
begin

section \<open>The polling backend: store, vote ledger and live fan-out\<close>

text \<open>
  The development embeds the vote path of the polling backend: the tables of the two
  SQL migrations, the Prisma calls of \<open>VoteController.submitVote\<close> and
  \<open>PollController\<close>, and the Socket.IO handlers of \<open>setupWebSocket\<close>.
  Identifiers are the TEXT columns of the schema, so they are strings. The timestamp
  columns and the timestamp field of a pushed snapshot are left out: no handler
  branches on them.
\<close>

subsection \<open>Tables\<close>

record poll =
  poll_id :: string
  question :: string
  isPublished :: bool
  creatorId :: string

record poll_option =
  option_id :: string
  option_text :: string
  pollId :: string

record vote =
  vote_id :: string
  userId :: string
  pollOptionId :: string

record db =
  polls :: "poll list"
  poll_options :: "poll_option list"
  votes :: "vote list"

text \<open>
  What the storage layer itself enforces after both migrations: the three primary keys
  and the unique index \<open>votes_user_id_poll_option_id_key\<close> on
  \<open>(user_id, poll_option_id)\<close>. The second migration drops every foreign key.
\<close>

definition wf_db :: "db \<Rightarrow> bool" where
  "wf_db s \<longleftrightarrow>
     distinct (map poll_id (polls s)) \<and>
     distinct (map option_id (poll_options s)) \<and>
     distinct (map vote_id (votes s)) \<and>
     distinct (map (\<lambda>v. (userId v, pollOptionId v)) (votes s))"

subsection \<open>Errors and the error handler\<close>

text \<open>
  \<open>createError(message, statusCode)\<close> builds a \<open>CustomError\<close>; a failed Prisma write
  throws a \<open>PrismaClientKnownRequestError\<close> with a code. \<open>errorHandler\<close> turns either
  into the status and message of the HTTP response.
\<close>

datatype app_error =
    CustomError string nat
  | PrismaClientKnownRequestError string

fun errorHandler :: "app_error \<Rightarrow> nat \<times> string" where
  "errorHandler (CustomError m c) =
     (if c \<noteq> 0 then (c, m) else (500, ''Internal Server Error''))"
| "errorHandler (PrismaClientKnownRequestError code) =
     (if code = ''P2002'' then (409, ''Unique constraint violation'')
      else if code = ''P2025'' then (404, ''Record not found'')
      else if code = ''P2003'' then (400, ''Foreign key constraint violation'')
      else (500, ''Database error''))"

definition statusCode :: "app_error \<Rightarrow> nat" where
  "statusCode e = fst (errorHandler e)"

subsection \<open>Store operations\<close>

text \<open>
  \<open>prisma.poll.findUnique({ where: { id, isPublished: true } })\<close> and the plain
  \<open>findUnique({ where: { id } })\<close>.
\<close>

definition findPublishedPoll :: "db \<Rightarrow> string \<Rightarrow> poll option" where
  "findPublishedPoll s pid = find (\<lambda>p. poll_id p = pid \<and> isPublished p) (polls s)"

definition findPoll :: "db \<Rightarrow> string \<Rightarrow> poll option" where
  "findPoll s pid = find (\<lambda>p. poll_id p = pid) (polls s)"

text \<open>The relation \<open>poll.options\<close>, and the same with \<open>where: { id: pollOptionId }\<close>.\<close>

definition options_of :: "db \<Rightarrow> poll \<Rightarrow> poll_option list" where
  "options_of s p = filter (\<lambda>opt. pollId opt = poll_id p) (poll_options s)"

definition options_where_id :: "db \<Rightarrow> poll \<Rightarrow> string \<Rightarrow> poll_option list" where
  "options_where_id s p oid = filter (\<lambda>opt. option_id opt = oid) (options_of s p)"

text \<open>\<open>_count: { select: { votes: true } }\<close> of an option.\<close>

definition count_votes :: "db \<Rightarrow> poll_option \<Rightarrow> nat" where
  "count_votes s opt = length (filter (\<lambda>v. pollOptionId v = option_id opt) (votes s))"

text \<open>
  The relation filter \<open>pollOption: { pollId }\<close> of a vote, and
  \<open>prisma.vote.findFirst({ where: { userId, pollOption: { pollId } } })\<close>.
\<close>

definition on_poll :: "db \<Rightarrow> string \<Rightarrow> vote \<Rightarrow> bool" where
  "on_poll s pid v \<longleftrightarrow>
     list_ex (\<lambda>opt. option_id opt = pollOptionId v \<and> pollId opt = pid) (poll_options s)"

definition votes_of :: "db \<Rightarrow> string \<Rightarrow> string \<Rightarrow> vote list" where
  "votes_of s u pid = filter (\<lambda>v. userId v = u \<and> on_poll s pid v) (votes s)"

definition findFirstVote :: "db \<Rightarrow> string \<Rightarrow> string \<Rightarrow> vote option" where
  "findFirstVote s u pid = find (\<lambda>v. userId v = u \<and> on_poll s pid v) (votes s)"

text \<open>
  \<open>prisma.vote.create({ data: { userId, pollOptionId } })\<close>. The identifier is generated
  by the client library, so it is an argument here; the insert is refused with P2002
  when it hits the primary key or the unique index on \<open>(user_id, poll_option_id)\<close>.
\<close>

definition vote_create :: "db \<Rightarrow> string \<Rightarrow> string \<Rightarrow> string \<Rightarrow> app_error + (db \<times> vote)" where
  "vote_create s newId u oid =
     (if list_ex (\<lambda>v. vote_id v = newId) (votes s)
         \<or> list_ex (\<lambda>v. userId v = u \<and> pollOptionId v = oid) (votes s)
      then Inl (PrismaClientKnownRequestError ''P2002'')
      else let v = \<lparr>vote_id = newId, userId = u, pollOptionId = oid\<rparr>
           in Inr (s\<lparr>votes := votes s @ [v]\<rparr>, v))"

text \<open>
  \<open>prisma.vote.update({ where: { id }, data: { pollOptionId } })\<close>: P2025 when no row
  has the identifier, P2002 when another row already holds the new
  \<open>(user_id, poll_option_id)\<close> pair.
\<close>

definition vote_update :: "db \<Rightarrow> string \<Rightarrow> string \<Rightarrow> app_error + (db \<times> vote)" where
  "vote_update s vid oid =
     (case find (\<lambda>v. vote_id v = vid) (votes s) of
        None \<Rightarrow> Inl (PrismaClientKnownRequestError ''P2025'')
      | Some v \<Rightarrow>
          if list_ex (\<lambda>w. vote_id w \<noteq> vid \<and> userId w = userId v \<and> pollOptionId w = oid) (votes s)
          then Inl (PrismaClientKnownRequestError ''P2002'')
          else Inr (s\<lparr>votes := map (\<lambda>w. if vote_id w = vid then w\<lparr>pollOptionId := oid\<rparr> else w)
                                   (votes s)\<rparr>,
                    v\<lparr>pollOptionId := oid\<rparr>))"

subsection \<open>Snapshots and what the socket layer emits\<close>

record option_data =
  od_id :: string
  od_text :: string
  voteCount :: nat

record poll_data =
  pd_id :: string
  pd_question :: string
  pd_options :: "option_data list"
  totalVotes :: nat

text \<open>
  The object built in the join handler and in \<open>broadcastVoteUpdate\<close>: the options with
  their counts, and \<open>poll.options.reduce((sum, option) => sum + option._count.votes, 0)\<close>.
\<close>

definition pollData :: "db \<Rightarrow> poll \<Rightarrow> poll_data" where
  "pollData s p =
     \<lparr>pd_id = poll_id p,
      pd_question = question p,
      pd_options = map (\<lambda>opt. \<lparr>od_id = option_id opt, od_text = option_text opt,
                                voteCount = count_votes s opt\<rparr>) (options_of s p),
      totalVotes = foldl (\<lambda>sum opt. sum + count_votes s opt) 0 (options_of s p)\<rparr>"

datatype message =
    PollUpdated poll_data
  | PollDataMsg poll_data
  | ErrorMsg string
  | UserJoinedPoll nat
  | UserLeftPoll nat
  | NewPollPublished string string "poll_option list"

text \<open>
  \<open>io.to(room).emit\<close>, \<open>socket.emit\<close>, \<open>socket.to(room).emit\<close> (the room without
  the sending socket) and \<open>io.emit\<close>.
\<close>

datatype target =
    ToRoom string
  | ToSocket string
  | ToRoomExcept string string
  | ToAll

type_synonym emission = "target \<times> message"

definition roomName :: "string \<Rightarrow> string" where
  "roomName pid = ''poll-'' @ pid"

text \<open>
  \<open>broadcastVoteUpdate\<close>. The store query or the emit may throw; \<open>fault\<close> says which,
  if any. The body of the \<open>try\<close> comes first, then the function with its \<open>catch\<close>,
  which logs and returns.
\<close>

datatype fault = NoFault | QueryThrows | EmitThrows

definition thrown :: app_error where
  "thrown = CustomError ''Internal Server Error'' 500"

definition broadcastVoteUpdate_try :: "fault \<Rightarrow> db \<Rightarrow> string \<Rightarrow> (app_error + unit) \<times> emission list" where
  "broadcastVoteUpdate_try f s pid =
     (if f = QueryThrows then (Inl thrown, [])
      else case findPoll s pid of
             None \<Rightarrow> (Inr (), [])
           | Some p \<Rightarrow>
               if f = EmitThrows then (Inl thrown, [])
               else (Inr (), [(ToRoom (roomName pid), PollUpdated (pollData s p))]))"

definition broadcastVoteUpdate :: "fault \<Rightarrow> db \<Rightarrow> string \<Rightarrow> (app_error + unit) \<times> emission list" where
  "broadcastVoteUpdate f s pid =
     (case broadcastVoteUpdate_try f s pid of
        (Inl e, ems) \<Rightarrow> (Inr (), ems)
      | (Inr u, ems) \<Rightarrow> (Inr u, ems))"

subsection \<open>The vote controller\<close>

text \<open>
  \<open>io_ready\<close> is the guard \<open>this.io && this.io.broadcastVoteUpdate\<close>; \<open>app.ts\<close> calls
  \<open>VoteController.setSocketIO(io)\<close> and \<open>setupWebSocket(io)\<close> before the server
  listens, so it holds in the running application.
\<close>

record env =
  io_ready :: bool
  broadcast_fault :: fault

text \<open>
  Of the body of the response the message, the identifier of the vote and its option are
  kept; the option text, the poll question and the creation time are read through the
  relations of the written row and decide nothing.
\<close>

record vote_response =
  message :: string
  resp_id :: string
  resp_pollOptionId :: string

type_synonym outcome = "(app_error + vote_response) \<times> db \<times> emission list"

text \<open>The tail of \<open>submitVote\<close> after the write: the guarded broadcast, then \<open>res.json\<close>.\<close>

definition respond :: "env \<Rightarrow> db \<Rightarrow> string \<Rightarrow> string \<Rightarrow> vote \<Rightarrow> outcome" where
  "respond e s pid msg v =
     (let resp = \<lparr>message = msg, resp_id = vote_id v, resp_pollOptionId = pollOptionId v\<rparr>
      in if io_ready e
         then (case broadcastVoteUpdate (broadcast_fault e) s pid of
                 (Inl err, ems) \<Rightarrow> (Inl err, s, ems)
               | (Inr u, ems) \<Rightarrow> (Inr resp, s, ems))
         else (Inr resp, s, []))"

text \<open>
  \<open>VoteController.submitVote\<close>: the user of the request (\<open>req.user?.id\<close>), the poll of
  the route, the option of the body, and the identifier the new row would get.
\<close>

definition submitVote :: "env \<Rightarrow> db \<Rightarrow> string option \<Rightarrow> string \<Rightarrow> string \<Rightarrow> string \<Rightarrow> outcome" where
  "submitVote e s user pid oid newId =
     (case user of
        None \<Rightarrow> (Inl (CustomError ''User not authenticated'' 401), s, [])
      | Some u \<Rightarrow>
          if u = [] then (Inl (CustomError ''User not authenticated'' 401), s, [])
          else case findPublishedPoll s pid of
            None \<Rightarrow> (Inl (CustomError ''Poll not found or not published'' 404), s, [])
          | Some p \<Rightarrow>
              if options_where_id s p oid = []
              then (Inl (CustomError ''Invalid poll option'' 400), s, [])
              else case findFirstVote s u pid of
                Some existingVote \<Rightarrow>
                  if pollOptionId existingVote = oid
                  then (Inl (CustomError ''You have already voted for this option'' 409), s, [])
                  else (case vote_update s (vote_id existingVote) oid of
                          Inl err \<Rightarrow> (Inl err, s, [])
                        | Inr (s', v) \<Rightarrow> respond e s' pid ''Vote updated successfully'' v)
              | None \<Rightarrow>
                  (case vote_create s newId u oid of
                     Inl err \<Rightarrow> (Inl err, s, [])
                   | Inr (s', v) \<Rightarrow> respond e s' pid ''Vote submitted successfully'' v))"


subsection \<open>Calls in sequence\<close>

record request =
  req_user :: "string option"
  req_poll :: string
  req_option :: string
  req_newId :: string

definition call :: "env \<Rightarrow> db \<Rightarrow> request \<Rightarrow> outcome" where
  "call e s q = submitVote e s (req_user q) (req_poll q) (req_option q) (req_newId q)"

text \<open>One call after the other, each on the store the previous one left.\<close>

fun run_votes :: "env \<Rightarrow> db \<Rightarrow> request list \<Rightarrow> outcome list" where
  "run_votes e s [] = []"
| "run_votes e s (q # qs) = call e s q # run_votes e (fst (snd (call e s q))) qs"

text \<open>
  The totals a member of the room of poll \<open>pid\<close> reads off the \<open>poll-updated\<close>
  events, in the order they are emitted.
\<close>

fun totals_for :: "string \<Rightarrow> emission \<Rightarrow> nat list" where
  "totals_for pid (ToRoom r, PollUpdated d) = (if r = roomName pid then [totalVotes d] else [])"
| "totals_for pid _ = []"

definition totals_seen :: "string \<Rightarrow> emission list \<Rightarrow> nat list" where
  "totals_seen pid ems = concat (map (totals_for pid) ems)"

text \<open>The rows of the ledger that are votes on a poll: the true count is their number.\<close>

definition poll_votes :: "db \<Rightarrow> string \<Rightarrow> vote list" where
  "poll_votes s pid = filter (on_poll s pid) (votes s)"

subsection \<open>The handler between its awaits\<close>

text \<open>
  \<open>submitVote\<close> awaits four store operations: the poll query, the query for the
  existing vote, the write, and the query of the broadcast. Another request can run
  between any two of them. A task is a request with the point it has reached; a step
  runs one store operation and the code up to the next await.
\<close>

datatype pc =
    FindPoll
  | FindVote string
  | Write string "vote option"
  | Broadcast vote_response
  | Done "app_error + vote_response"

type_synonym task = "request \<times> pc"

definition after_write :: "env \<Rightarrow> string \<Rightarrow> vote \<Rightarrow> pc" where
  "after_write e msg v =
     (let resp = \<lparr>message = msg, resp_id = vote_id v, resp_pollOptionId = pollOptionId v\<rparr>
      in if io_ready e then Broadcast resp else Done (Inr resp))"

fun step :: "env \<Rightarrow> db \<Rightarrow> task \<Rightarrow> task \<times> db \<times> emission list" where
  "step e s (q, FindPoll) =
     (case req_user q of
        None \<Rightarrow> ((q, Done (Inl (CustomError ''User not authenticated'' 401))), s, [])
      | Some u \<Rightarrow>
          if u = [] then ((q, Done (Inl (CustomError ''User not authenticated'' 401))), s, [])
          else case findPublishedPoll s (req_poll q) of
            None \<Rightarrow> ((q, Done (Inl (CustomError ''Poll not found or not published'' 404))), s, [])
          | Some p \<Rightarrow>
              if options_where_id s p (req_option q) = []
              then ((q, Done (Inl (CustomError ''Invalid poll option'' 400))), s, [])
              else ((q, FindVote u), s, []))"
| "step e s (q, FindVote u) =
     (case findFirstVote s u (req_poll q) of
        Some existingVote \<Rightarrow>
          if pollOptionId existingVote = req_option q
          then ((q, Done (Inl (CustomError ''You have already voted for this option'' 409))), s, [])
          else ((q, Write u (Some existingVote)), s, [])
      | None \<Rightarrow> ((q, Write u None), s, []))"
| "step e s (q, Write u (Some existingVote)) =
     (case vote_update s (vote_id existingVote) (req_option q) of
        Inl err \<Rightarrow> ((q, Done (Inl err)), s, [])
      | Inr (s', v) \<Rightarrow> ((q, after_write e ''Vote updated successfully'' v), s', []))"
| "step e s (q, Write u None) =
     (case vote_create s (req_newId q) u (req_option q) of
        Inl err \<Rightarrow> ((q, Done (Inl err)), s, [])
      | Inr (s', v) \<Rightarrow> ((q, after_write e ''Vote submitted successfully'' v), s', []))"
| "step e s (q, Broadcast resp) =
     (case broadcastVoteUpdate (broadcast_fault e) s (req_poll q) of
        (Inl err, ems) \<Rightarrow> ((q, Done (Inl err)), s, ems)
      | (Inr u, ems) \<Rightarrow> ((q, Done (Inr resp)), s, ems))"
| "step e s (q, Done r) = ((q, Done r), s, [])"

text \<open>
  A schedule names, step by step, the task that runs next; the tasks share the store
  and the emitted events are collected in order.
\<close>

type_synonym config = "task list \<times> db \<times> emission list"

fun exec :: "env \<Rightarrow> nat list \<Rightarrow> config \<Rightarrow> config" where
  "exec e [] c = c"
| "exec e (i # sched) (ts, s, out) =
     (if i < length ts
      then (case step e s (ts ! i) of
              (t', s', ems) \<Rightarrow> exec e sched (ts[i := t'], s', out @ ems))
      else exec e sched (ts, s, out))"

text \<open>The same task running \<open>n\<close> steps in a row, with no other task in between.\<close>

fun steps :: "env \<Rightarrow> nat \<Rightarrow> task \<times> db \<times> emission list \<Rightarrow> task \<times> db \<times> emission list" where
  "steps e 0 c = c"
| "steps e (Suc n) (t, s, out) =
     (case step e s t of (t', s', ems) \<Rightarrow> steps e n (t', s', out @ ems))"

subsection \<open>The poll controller\<close>

text \<open>
  \<open>broadcastNewPoll\<close>, built like \<open>broadcastVoteUpdate\<close>; the creator's name in the
  event is left out with the users table.
\<close>

definition broadcastNewPoll_try :: "fault \<Rightarrow> db \<Rightarrow> string \<Rightarrow> (app_error + unit) \<times> emission list" where
  "broadcastNewPoll_try f s pid =
     (if f = QueryThrows then (Inl thrown, [])
      else case findPoll s pid of
             None \<Rightarrow> (Inr (), [])
           | Some p \<Rightarrow>
               if \<not> isPublished p then (Inr (), [])
               else if f = EmitThrows then (Inl thrown, [])
               else (Inr (), [(ToAll, NewPollPublished (poll_id p) (question p) (options_of s p))]))"

definition broadcastNewPoll :: "fault \<Rightarrow> db \<Rightarrow> string \<Rightarrow> (app_error + unit) \<times> emission list" where
  "broadcastNewPoll f s pid =
     (case broadcastNewPoll_try f s pid of
        (Inl e, ems) \<Rightarrow> (Inr (), ems)
      | (Inr u, ems) \<Rightarrow> (Inr u, ems))"

text \<open>\<open>prisma.poll.update({ where: { id }, data })\<close>: P2025 when no row has the identifier.\<close>

definition poll_update :: "db \<Rightarrow> string \<Rightarrow> (poll \<Rightarrow> poll) \<Rightarrow> app_error + (db \<times> poll)" where
  "poll_update s pid f =
     (case findPoll s pid of
        None \<Rightarrow> Inl (PrismaClientKnownRequestError ''P2025'')
      | Some p \<Rightarrow>
          Inr (s\<lparr>polls := map (\<lambda>r. if poll_id r = pid then f r else r) (polls s)\<rparr>, f p))"

text \<open>
  The \<open>data\<close> object of \<open>updatePoll\<close>:
  \<open>{ ...(question && { question }), ...(isPublished !== undefined && { isPublished }) }\<close>.
  \<open>updatePollSchema\<close> declares \<open>isPublished\<close> as \<open>z.boolean().optional()\<close>, so both
  booleans pass validation.
\<close>

definition update_data :: "string option \<Rightarrow> bool option \<Rightarrow> poll \<Rightarrow> poll" where
  "update_data q pub p =
     (let p1 = (case q of None \<Rightarrow> p | Some t \<Rightarrow> if t \<noteq> [] then p\<lparr>question := t\<rparr> else p)
      in case pub of None \<Rightarrow> p1 | Some b \<Rightarrow> p1\<lparr>isPublished := b\<rparr>)"

type_synonym poll_outcome = "(app_error + poll) \<times> db \<times> emission list"

definition updatePoll :: "env \<Rightarrow> db \<Rightarrow> string \<Rightarrow> string option \<Rightarrow> bool option \<Rightarrow> poll_outcome" where
  "updatePoll e s pid q pub =
     (case poll_update s pid (update_data q pub) of
        Inl err \<Rightarrow> (Inl err, s, [])
      | Inr (s', p) \<Rightarrow>
          if pub = Some True \<and> io_ready e
          then (case broadcastNewPoll (broadcast_fault e) s' (poll_id p) of
                  (Inl err, ems) \<Rightarrow> (Inl err, s', ems)
                | (Inr u, ems) \<Rightarrow> (Inr p, s', ems))
          else (Inr p, s', []))"

definition publishPoll :: "env \<Rightarrow> db \<Rightarrow> string \<Rightarrow> poll_outcome" where
  "publishPoll e s pid =
     (case poll_update s pid (\<lambda>p. p\<lparr>isPublished := True\<rparr>) of
        Inl err \<Rightarrow> (Inl err, s, [])
      | Inr (s', p) \<Rightarrow>
          if io_ready e
          then (case broadcastNewPoll (broadcast_fault e) s' (poll_id p) of
                  (Inl err, ems) \<Rightarrow> (Inl err, s', ems)
                | (Inr u, ems) \<Rightarrow> (Inr p, s', ems))
          else (Inr p, s', []))"

text \<open>
  The middleware \<open>requirePollOwnership\<close> in front of both routes: \<open>None\<close> is
  \<open>next()\<close>, otherwise the status and message of the response it sends.
\<close>

definition requirePollOwnership :: "db \<Rightarrow> string option \<Rightarrow> string \<Rightarrow> (nat \<times> string) option" where
  "requirePollOwnership s user pid =
     (if pid = [] then Some (400, ''Poll ID is required'')
      else case findPoll s pid of
             None \<Rightarrow> Some (404, ''Poll not found'')
           | Some p \<Rightarrow>
               if Some (creatorId p) \<noteq> user
               then Some (403, ''You can only modify your own polls'')
               else None)"

text \<open>
  The requests that write the store: \<open>PUT /:id\<close>, \<open>PUT /:id/publish\<close> (both behind
  the ownership check) and \<open>POST /polls/:pollId/vote\<close>. The result is the store after
  the request.
\<close>

datatype operation =
    UpdatePoll "string option" string "string option" "bool option"
  | PublishPoll "string option" string
  | SubmitVote request

fun apply_op :: "env \<Rightarrow> db \<Rightarrow> operation \<Rightarrow> db" where
  "apply_op e s (UpdatePoll user pid q pub) =
     (case requirePollOwnership s user pid of
        Some response \<Rightarrow> s
      | None \<Rightarrow> fst (snd (updatePoll e s pid q pub)))"
| "apply_op e s (PublishPoll user pid) =
     (case requirePollOwnership s user pid of
        Some response \<Rightarrow> s
      | None \<Rightarrow> fst (snd (publishPoll e s pid)))"
| "apply_op e s (SubmitVote q) = fst (snd (call e s q))"

subsection \<open>Joining a poll room\<close>

text \<open>
  \<open>io.sockets.adapter.rooms\<close> maps a room name to the identifiers of the sockets in
  it; a socket carries its own identifier, its user and \<open>currentPollRooms\<close>. The
  argument of a \<open>join-poll\<close> event is whatever the client sent.
\<close>

type_synonym rooms = "string \<Rightarrow> string set"

record socket =
  socket_id :: string
  socket_userId :: string
  currentPollRooms :: "string set"

datatype payload = PString string | POther

definition userCount_joined :: "rooms \<Rightarrow> string \<Rightarrow> nat" where
  "userCount_joined rs room = (if card (rs room) = 0 then 1 else card (rs room))"

definition join_poll :: "db \<Rightarrow> rooms \<Rightarrow> socket \<Rightarrow> payload \<Rightarrow> rooms \<times> socket \<times> emission list" where
  "join_poll s rs sock arg =
     (case arg of
        POther \<Rightarrow> (rs, sock, [(ToSocket (socket_id sock), ErrorMsg ''Invalid poll ID provided'')])
      | PString pid \<Rightarrow>
          if pid = []
          then (rs, sock, [(ToSocket (socket_id sock), ErrorMsg ''Invalid poll ID provided'')])
          else case findPublishedPoll s pid of
            None \<Rightarrow>
              (rs, sock, [(ToSocket (socket_id sock), ErrorMsg ''Poll not found or not published'')])
          | Some p \<Rightarrow>
              let room = roomName pid;
                  rs' = rs(room := insert (socket_id sock) (rs room));
                  sock' = sock\<lparr>currentPollRooms := insert room (currentPollRooms sock)\<rparr>
              in (rs', sock',
                  [(ToSocket (socket_id sock), PollDataMsg (pollData s p)),
                   (ToRoomExcept room (socket_id sock),
                    UserJoinedPoll (userCount_joined rs' room))]))"

text \<open>The snapshots a socket is sent directly, as \<open>poll-data\<close>.\<close>

fun snapshot_to :: "string \<Rightarrow> emission \<Rightarrow> poll_data list" where
  "snapshot_to sid (ToSocket r, PollDataMsg d) = (if r = sid then [d] else [])"
| "snapshot_to sid _ = []"

definition snapshots_to :: "string \<Rightarrow> emission list \<Rightarrow> poll_data list" where
  "snapshots_to sid ems = concat (map (snapshot_to sid) ems)"

subsection \<open>The numbers of the results endpoint\<close>

text \<open>
  \<open>option._count.votes / totalVotes\<close> and \<open>* 100\<close> are operations on IEEE 754
  doubles: the exact quotient or product, rounded to the nearest double, ties to the
  even significand. A count below \<open>2^53\<close> is a double itself. \<open>binary64\<close> rounds a
  rational to 53 significant bits: \<open>normalise\<close> scales the value into the interval
  from \<open>2^52\<close> up to \<open>2^53\<close>, keeping the scale, and \<open>round_half_even\<close> rounds the
  scaled value to an integer. With 1074 scaling steps every value of the normal range of
  doubles is reached; subnormal results and overflow are not modelled (the values here
  lie between \<open>1 / 2^53\<close> and 100).
\<close>

definition round_half_even :: "rat \<Rightarrow> int" where
  "round_half_even x =
     (let f = \<lfloor>x\<rfloor>; d = x - of_int f
      in if d < 1 / 2 then f else if 1 / 2 < d then f + 1 else if even f then f else f + 1)"

fun normalise :: "nat \<Rightarrow> rat \<Rightarrow> rat \<Rightarrow> rat \<times> rat" where
  "normalise 0 m sc = (m, sc)"
| "normalise (Suc k) m sc =
     (if m < 2 ^ 52 then normalise k (2 * m) (sc / 2)
      else if 2 ^ 53 \<le> m then normalise k (m / 2) (2 * sc)
      else (m, sc))"

definition binary64_pos :: "rat \<Rightarrow> rat" where
  "binary64_pos x = (case normalise 1074 x 1 of (m, sc) \<Rightarrow> of_int (round_half_even m) * sc)"

definition binary64 :: "rat \<Rightarrow> rat" where
  "binary64 x = (if x = 0 then 0 else if x < 0 then - binary64_pos (- x) else binary64_pos x)"

definition js_divide :: "nat \<Rightarrow> nat \<Rightarrow> rat" where
  "js_divide a b = binary64 (of_nat a / of_nat b)"

definition js_times :: "rat \<Rightarrow> rat \<Rightarrow> rat" where
  "js_times x y = binary64 (x * y)"

text \<open>
  \<open>x.toFixed(1)\<close> for a double \<open>x\<close> that is not negative and below \<open>10^21\<close>: "let n
  be an integer for which n / 10 - x is as close to zero as possible; if there are two
  such n, pick the larger n", then the decimal digits of \<open>n\<close>, padded to two digits,
  with the point before the last one.
\<close>

definition digit_char :: "nat \<Rightarrow> char" where
  "digit_char d =
     (if d = 0 then CHR ''0'' else if d = 1 then CHR ''1'' else if d = 2 then CHR ''2''
      else if d = 3 then CHR ''3'' else if d = 4 then CHR ''4'' else if d = 5 then CHR ''5''
      else if d = 6 then CHR ''6'' else if d = 7 then CHR ''7'' else if d = 8 then CHR ''8''
      else CHR ''9'')"

fun digits :: "nat \<Rightarrow> string" where
  "digits n = (if n < 10 then [digit_char n] else digits (n div 10) @ [digit_char (n mod 10)])"

declare digits.simps [simp del]

definition fixed1 :: "nat \<Rightarrow> string" where
  "fixed1 n =
     (let m = digits n;
          m' = (if length m \<le> 1 then ''0'' @ m else m)
      in take (length m' - 1) m' @ ''.'' @ drop (length m' - 1) m')"

definition toFixed1 :: "rat \<Rightarrow> string" where
  "toFixed1 x = fixed1 (nat \<lfloor>x * 10 + 1 / 2\<rfloor>)"

text \<open>\<open>PollController.getPollResults\<close>.\<close>

record option_result =
  or_id :: string
  or_text :: string
  or_voteCount :: nat
  percentage :: string

record poll_results =
  res_pollId :: string
  res_question :: string
  res_totalVotes :: nat
  res_options :: "option_result list"

definition getPollResults :: "db \<Rightarrow> string \<Rightarrow> app_error + poll_results" where
  "getPollResults s pid =
     (case findPoll s pid of
        None \<Rightarrow> Inl (CustomError ''Poll not found'' 404)
      | Some p \<Rightarrow>
          let total = foldl (\<lambda>sum opt. sum + count_votes s opt) 0 (options_of s p)
          in Inr \<lparr>res_pollId = poll_id p,
                  res_question = question p,
                  res_totalVotes = total,
                  res_options =
                    map (\<lambda>opt. \<lparr>or_id = option_id opt, or_text = option_text opt,
                                 or_voteCount = count_votes s opt,
                                 percentage =
                                   (if total > 0
                                    then toFixed1 (js_times (js_divide (count_votes s opt) total) 100)
                                    else ''0'')\<rparr>)
                        (options_of s p)\<rparr>)"

subsection \<open>A poll with two options\<close>

text \<open>
  The stores of the worked scenario: poll \<open>p1\<close> with the options \<open>a\<close> and \<open>b\<close>,
  published by its creator \<open>u0\<close>, and a draft poll \<open>p2\<close> with one option \<open>c\<close>;
  first without votes, then with the vote of \<open>u1\<close> for \<open>a\<close>.
\<close>

definition poll1 :: poll where
  "poll1 = \<lparr>poll_id = ''p1'', question = ''Tea or coffee?'', isPublished = True, creatorId = ''u0''\<rparr>"

definition poll2 :: poll where
  "poll2 = \<lparr>poll_id = ''p2'', question = ''Cats or dogs?'', isPublished = False, creatorId = ''u0''\<rparr>"

definition optA :: poll_option where
  "optA = \<lparr>option_id = ''a'', option_text = ''Tea'', pollId = ''p1''\<rparr>"

definition optB :: poll_option where
  "optB = \<lparr>option_id = ''b'', option_text = ''Coffee'', pollId = ''p1''\<rparr>"

definition optC :: poll_option where
  "optC = \<lparr>option_id = ''c'', option_text = ''Cats'', pollId = ''p2''\<rparr>"

definition voteA1 :: vote where
  "voteA1 = \<lparr>vote_id = ''v1'', userId = ''u1'', pollOptionId = ''a''\<rparr>"

definition voteB1 :: vote where
  "voteB1 = \<lparr>vote_id = ''v2'', userId = ''u1'', pollOptionId = ''b''\<rparr>"

definition db_fresh :: db where
  "db_fresh = \<lparr>polls = [poll1, poll2], poll_options = [optA, optB, optC], votes = []\<rparr>"

definition db_voted :: db where
  "db_voted = \<lparr>polls = [poll1, poll2], poll_options = [optA, optB, optC], votes = [voteA1]\<rparr>"

definition db_twice :: db where
  "db_twice = \<lparr>polls = [poll1, poll2], poll_options = [optA, optB, optC], votes = [voteA1, voteB1]\<rparr>"

definition env_live :: env where
  "env_live = \<lparr>io_ready = True, broadcast_fault = NoFault\<rparr>"

text \<open>The three calls of the scenario: \<open>u1\<close> votes \<open>a\<close>, \<open>u2\<close> votes \<open>b\<close>, \<open>u1\<close> votes \<open>b\<close>.\<close>

definition scenario_calls :: "request list" where
  "scenario_calls =
     [\<lparr>req_user = Some ''u1'', req_poll = ''p1'', req_option = ''a'', req_newId = ''v1''\<rparr>,
      \<lparr>req_user = Some ''u2'', req_poll = ''p1'', req_option = ''b'', req_newId = ''v2''\<rparr>,
      \<lparr>req_user = Some ''u1'', req_poll = ''p1'', req_option = ''b'', req_newId = ''v3''\<rparr>]"

text \<open>Two requests of \<open>u1\<close> on poll \<open>p1\<close>, sent at the same time: one for \<open>a\<close>, one for \<open>b\<close>.\<close>

definition req_a :: request where
  "req_a = \<lparr>req_user = Some ''u1'', req_poll = ''p1'', req_option = ''a'', req_newId = ''v1''\<rparr>"

definition req_b :: request where
  "req_b = \<lparr>req_user = Some ''u1'', req_poll = ''p1'', req_option = ''b'', req_newId = ''v2''\<rparr>"

text \<open>Poll \<open>p1\<close> with one vote for \<open>a\<close> and two for \<open>b\<close>.\<close>

definition db_three :: db where
  "db_three =
     \<lparr>polls = [poll1, poll2], poll_options = [optA, optB, optC],
      votes = [voteA1,
               \<lparr>vote_id = ''v2'', userId = ''u2'', pollOptionId = ''b''\<rparr>,
               \<lparr>vote_id = ''v3'', userId = ''u3'', pollOptionId = ''b''\<rparr>]\<rparr>"

section \<open>Properties\<close>

subsection \<open>Reading the store\<close>

lemma findPublishedPoll_Some:
  "findPublishedPoll s pid = Some p \<Longrightarrow> p \<in> set (polls s) \<and> poll_id p = pid \<and> isPublished p"
  by (auto simp: findPublishedPoll_def find_Some_iff)

lemma findPublishedPoll_None:
  "findPublishedPoll s pid = None \<longleftrightarrow> \<not> (\<exists>p \<in> set (polls s). poll_id p = pid \<and> isPublished p)"
  by (auto simp: findPublishedPoll_def find_None_iff)

lemma findFirstVote_None: "findFirstVote s u pid = None \<longleftrightarrow> votes_of s u pid = []"
  by (auto simp: findFirstVote_def votes_of_def find_None_iff filter_empty_conv)

lemma findFirstVote_Some:
  "findFirstVote s u pid = Some v \<Longrightarrow> v \<in> set (votes s) \<and> userId v = u \<and> on_poll s pid v"
  by (auto simp: findFirstVote_def find_Some_iff)

lemma find_Some_filter: "find P xs = Some v \<Longrightarrow> \<exists>vs. filter P xs = v # vs"
  by (induction xs) (auto split: if_splits)

lemma findFirstVote_hd:
  "findFirstVote s u pid = Some v \<Longrightarrow> \<exists>vs. votes_of s u pid = v # vs"
  unfolding findFirstVote_def votes_of_def by (rule find_Some_filter)

lemma options_where_id_nonempty:
  "options_where_id s p oid \<noteq> [] \<longleftrightarrow>
     (\<exists>opt \<in> set (poll_options s). option_id opt = oid \<and> pollId opt = poll_id p)"
  by (auto simp: options_where_id_def options_of_def filter_empty_conv)

lemma on_poll_iff:
  "on_poll s pid v \<longleftrightarrow> (\<exists>opt \<in> set (poll_options s). option_id opt = pollOptionId v \<and> pollId opt = pid)"
  by (auto simp: on_poll_def list_ex_iff)

lemma option_poll_unique:
  assumes "distinct (map option_id (poll_options s))"
    and "a \<in> set (poll_options s)" "b \<in> set (poll_options s)" "option_id a = option_id b"
  shows "a = b"
  using assms by (meson distinct_map inj_onD)

lemma vote_create_Inr:
  "vote_create s newId u oid = Inr (s', v) \<Longrightarrow>
     v = \<lparr>vote_id = newId, userId = u, pollOptionId = oid\<rparr> \<and>
     s' = s\<lparr>votes := votes s @ [v]\<rparr> \<and>
     newId \<notin> vote_id ` set (votes s) \<and>
     (u, oid) \<notin> (\<lambda>v. (userId v, pollOptionId v)) ` set (votes s)"
  by (auto simp: vote_create_def list_ex_iff Let_def split: if_splits)

lemma vote_create_wf:
  "wf_db s \<Longrightarrow> vote_create s newId u oid = Inr (s', v) \<Longrightarrow> wf_db s'"
  by (drule vote_create_Inr) (auto simp: wf_db_def)

lemma vote_update_Inr:
  "vote_update s vid oid = Inr (s', v') \<Longrightarrow>
     \<exists>v. find (\<lambda>v. vote_id v = vid) (votes s) = Some v \<and>
         v' = v\<lparr>pollOptionId := oid\<rparr> \<and>
         s' = s\<lparr>votes := map (\<lambda>w. if vote_id w = vid then w\<lparr>pollOptionId := oid\<rparr> else w) (votes s)\<rparr> \<and>
         (\<forall>w \<in> set (votes s). vote_id w \<noteq> vid \<longrightarrow> \<not> (userId w = userId v \<and> pollOptionId w = oid))"
  by (auto simp: vote_update_def list_ex_iff split: option.splits if_splits)

lemma map_upd_vote_id:
  "map vote_id (map (\<lambda>w. if vote_id w = vid then w\<lparr>pollOptionId := oid\<rparr> else w) vs) = map vote_id vs"
  by (induction vs) auto

lemma distinct_pairs_update:
  assumes ids: "distinct (map vote_id vs)"
    and pairs: "distinct (map (\<lambda>v. (userId v, pollOptionId v)) vs)"
    and v: "v \<in> set vs" "vote_id v = vid"
    and free: "\<forall>w \<in> set vs. vote_id w \<noteq> vid \<longrightarrow> \<not> (userId w = userId v \<and> pollOptionId w = oid)"
  shows "distinct (map (\<lambda>w. (userId w, if vote_id w = vid then oid else pollOptionId w)) vs)"
proof -
  have dv: "distinct vs" and inj_id: "inj_on vote_id (set vs)"
    using ids by (auto simp: distinct_map)
  have inj_pair: "inj_on (\<lambda>v. (userId v, pollOptionId v)) (set vs)"
    using pairs by (auto simp: distinct_map)
  have "inj_on (\<lambda>w. (userId w, if vote_id w = vid then oid else pollOptionId w)) (set vs)"
  proof (rule inj_onI)
    fix x y
    assume x: "x \<in> set vs" and y: "y \<in> set vs"
      and eq: "(userId x, if vote_id x = vid then oid else pollOptionId x) =
               (userId y, if vote_id y = vid then oid else pollOptionId y)"
    show "x = y"
    proof (cases "vote_id x = vid")
      case xv: True
      then have xeq: "x = v" using inj_onD[OF inj_id _ x v(1)] v(2) by simp
      show ?thesis
      proof (cases "vote_id y = vid")
        case True
        then show ?thesis using inj_onD[OF inj_id _ x y] xv by simp
      next
        case False
        then show ?thesis using free y eq xv xeq by auto
      qed
    next
      case xn: False
      show ?thesis
      proof (cases "vote_id y = vid")
        case True
        then have "y = v" using inj_onD[OF inj_id _ y v(1)] v(2) by simp
        then show ?thesis using free x eq xn True by auto
      next
        case False
        then show ?thesis using inj_onD[OF inj_pair _ x y] eq xn by simp
      qed
    qed
  qed
  then show ?thesis using dv by (simp add: distinct_map)
qed

lemma map_upd_pairs:
  "map (\<lambda>v. (userId v, pollOptionId v))
       (map (\<lambda>w. if vote_id w = vid then w\<lparr>pollOptionId := oid\<rparr> else w) vs) =
   map (\<lambda>w. (userId w, if vote_id w = vid then oid else pollOptionId w)) vs"
  by (induction vs) auto

lemma vote_update_wf:
  assumes "wf_db s" "vote_update s vid oid = Inr (s', v')"
  shows "wf_db s'"
proof -
  from vote_update_Inr[OF assms(2)] obtain v where
    f: "find (\<lambda>v. vote_id v = vid) (votes s) = Some v"
    and s': "s' = s\<lparr>votes := map (\<lambda>w. if vote_id w = vid then w\<lparr>pollOptionId := oid\<rparr> else w) (votes s)\<rparr>"
    and free: "\<forall>w \<in> set (votes s). vote_id w \<noteq> vid \<longrightarrow> \<not> (userId w = userId v \<and> pollOptionId w = oid)"
    by blast
  from f have vin: "v \<in> set (votes s)" "vote_id v = vid" by (auto simp: find_Some_iff)
  show ?thesis
    using assms(1) distinct_pairs_update[OF _ _ vin free]
    by (simp add: wf_db_def s' map_upd_vote_id map_upd_pairs del: map_map)
qed


lemma on_poll_unique:
  assumes "distinct (map option_id (poll_options s))" "on_poll s pid v" "on_poll s pid' v"
  shows "pid = pid'"
proof -
  from assms(2,3) obtain a b where
    a: "a \<in> set (poll_options s)" "option_id a = pollOptionId v" "pollId a = pid" and
    b: "b \<in> set (poll_options s)" "option_id b = pollOptionId v" "pollId b = pid'"
    by (auto simp: on_poll_iff)
  then have "a = b" using option_poll_unique[OF assms(1) a(1) b(1)] by simp
  then show ?thesis using a b by simp
qed

lemma on_poll_votes_upd [simp]: "on_poll (s\<lparr>votes := vs\<rparr>) = on_poll s"
  by (auto simp: on_poll_def fun_eq_iff)

lemma on_poll_only:
  assumes d: "distinct (map option_id (poll_options s))" and here: "on_poll s pid v"
  shows "on_poll s pid' v \<longleftrightarrow> pid' = pid"
proof
  assume "on_poll s pid' v"
  then show "pid' = pid" by (rule on_poll_unique[OF d _ here])
next
  assume "pid' = pid"
  then show "on_poll s pid' v" using here by simp
qed

lemma votes_of_create:
  assumes d: "distinct (map option_id (poll_options s))"
    and opt: "opt \<in> set (poll_options s)" "option_id opt = oid" "pollId opt = pid"
    and v: "userId v = u" "pollOptionId v = oid"
  shows "votes_of (s\<lparr>votes := votes s @ [v]\<rparr>) u' pid' =
         votes_of s u' pid' @ (if u' = u \<and> pid' = pid then [v] else [])"
proof -
  have here: "on_poll s pid v" unfolding on_poll_iff using opt v by auto
  show ?thesis by (simp add: votes_of_def on_poll_only[OF d here] v)
qed

lemma votes_of_update_length:
  assumes d: "distinct (map option_id (poll_options s))"
    and ids: "distinct (map vote_id (votes s))"
    and ev: "ev \<in> set (votes s)" "vote_id ev = vid" "on_poll s pid ev"
    and opt: "opt \<in> set (poll_options s)" "option_id opt = oid" "pollId opt = pid"
  shows "length (votes_of (s\<lparr>votes := map (\<lambda>w. if vote_id w = vid then w\<lparr>pollOptionId := oid\<rparr> else w) (votes s)\<rparr>) u' pid') =
         length (votes_of s u' pid')"
proof -
  let ?f = "\<lambda>w. if vote_id w = vid then w\<lparr>pollOptionId := oid\<rparr> else w"
  let ?P = "\<lambda>v. userId v = u' \<and> on_poll s pid' v"
  have inj_id: "inj_on vote_id (set (votes s))" using ids by (simp add: distinct_map)
  have same: "?P (?f w) = ?P w" if w: "w \<in> set (votes s)" for w
  proof (cases "vote_id w = vid")
    case True
    then have weq: "w = ev" using inj_onD[OF inj_id _ w ev(1)] ev(2) by simp
    have new: "on_poll s pid (w\<lparr>pollOptionId := oid\<rparr>)" unfolding on_poll_iff using opt by auto
    have "on_poll s pid' (w\<lparr>pollOptionId := oid\<rparr>) \<longleftrightarrow> pid' = pid"
      by (rule on_poll_only[OF d new])
    moreover have "on_poll s pid' w \<longleftrightarrow> pid' = pid"
      unfolding weq by (rule on_poll_only[OF d ev(3)])
    ultimately show ?thesis using True by simp
  next
    case False
    then show ?thesis by simp
  qed
  have "length (filter ?P (map ?f (votes s))) = length (filter (?P \<circ> ?f) (votes s))"
    by (simp only: filter_map length_map)
  also have "filter (?P \<circ> ?f) (votes s) = filter ?P (votes s)"
  proof (rule filter_cong)
    show "votes s = votes s" by simp
  next
    fix w assume "w \<in> set (votes s)"
    then show "(?P \<circ> ?f) w = ?P w" using same by (simp only: o_def)
  qed
  finally show ?thesis by (simp add: votes_of_def)
qed

lemma broadcastVoteUpdate_ok: "fst (broadcastVoteUpdate f s pid) = Inr ()"
  by (auto simp: broadcastVoteUpdate_def split: prod.splits sum.splits)

lemma respond_db: "respond e s pid msg v = (r, s', ems) \<Longrightarrow> s' = s"
  by (auto simp: respond_def Let_def split: if_splits prod.splits sum.splits)

lemma respond_ok:
  "respond e s pid msg v = (r, s', ems) \<Longrightarrow>
     r = Inr \<lparr>message = msg, resp_id = vote_id v, resp_pollOptionId = pollOptionId v\<rparr>"
  using broadcastVoteUpdate_ok[of "broadcast_fault e" s pid]
  by (auto simp: respond_def Let_def split: if_splits prod.splits sum.splits)

text \<open>The outcomes of a call, one per branch of the handler.\<close>

lemma submitVote_cases:
  assumes "submitVote e s user pid oid newId = (r, s', ems)"
  obtains
    (unauth) "user = None \<or> user = Some []" "s' = s" "ems = []"
      "r = Inl (CustomError ''User not authenticated'' 401)"
  | (nopoll) u where "user = Some u" "u \<noteq> []" "findPublishedPoll s pid = None" "s' = s" "ems = []"
      "r = Inl (CustomError ''Poll not found or not published'' 404)"
  | (noopt) u p where "user = Some u" "u \<noteq> []" "findPublishedPoll s pid = Some p"
      "options_where_id s p oid = []" "s' = s" "ems = []"
      "r = Inl (CustomError ''Invalid poll option'' 400)"
  | (dup) u p ev where "user = Some u" "u \<noteq> []" "findPublishedPoll s pid = Some p"
      "options_where_id s p oid \<noteq> []" "findFirstVote s u pid = Some ev" "pollOptionId ev = oid"
      "s' = s" "ems = []" "r = Inl (CustomError ''You have already voted for this option'' 409)"
  | (upd_err) u p ev err where "user = Some u" "u \<noteq> []" "findPublishedPoll s pid = Some p"
      "options_where_id s p oid \<noteq> []" "findFirstVote s u pid = Some ev" "pollOptionId ev \<noteq> oid"
      "vote_update s (vote_id ev) oid = Inl err" "s' = s" "ems = []" "r = Inl err"
  | (moved) u p ev v where "user = Some u" "u \<noteq> []" "findPublishedPoll s pid = Some p"
      "options_where_id s p oid \<noteq> []" "findFirstVote s u pid = Some ev" "pollOptionId ev \<noteq> oid"
      "vote_update s (vote_id ev) oid = Inr (s', v)"
      "respond e s' pid ''Vote updated successfully'' v = (r, s', ems)"
  | (create_err) u p err where "user = Some u" "u \<noteq> []" "findPublishedPoll s pid = Some p"
      "options_where_id s p oid \<noteq> []" "findFirstVote s u pid = None"
      "vote_create s newId u oid = Inl err" "s' = s" "ems = []" "r = Inl err"
  | (created) u p v where "user = Some u" "u \<noteq> []" "findPublishedPoll s pid = Some p"
      "options_where_id s p oid \<noteq> []" "findFirstVote s u pid = None"
      "vote_create s newId u oid = Inr (s', v)"
      "respond e s' pid ''Vote submitted successfully'' v = (r, s', ems)"
proof (cases user)
  case None
  show ?thesis using assms by (intro unauth) (simp_all add: submitVote_def None)
next
  case (Some u)
  note u = this
  show ?thesis
  proof (cases "u = []")
    case True
    show ?thesis using assms by (intro unauth) (simp_all add: submitVote_def u True)
  next
    case ne: False
    show ?thesis
    proof (cases "findPublishedPoll s pid")
      case None
      show ?thesis using assms
        by (intro nopoll[OF u ne None]) (simp_all add: submitVote_def u ne None)
    next
      case (Some p)
      note p = this
      show ?thesis
      proof (cases "options_where_id s p oid = []")
        case True
        show ?thesis using assms
          by (intro noopt[OF u ne p True]) (simp_all add: submitVote_def u ne p True)
      next
        case o: False
        show ?thesis
        proof (cases "findFirstVote s u pid")
          case None
          note fv = this
          show ?thesis
          proof (cases "vote_create s newId u oid")
            case (Inl err)
            show ?thesis using assms
              by (intro create_err[OF u ne p o fv Inl]) (simp_all add: submitVote_def u ne p o fv Inl)
          next
            case (Inr sv)
            obtain s1 v where sv: "sv = (s1, v)" by (cases sv)
            have r: "respond e s1 pid ''Vote submitted successfully'' v = (r, s', ems)"
              using assms by (simp add: submitVote_def u ne p o fv Inr sv)
            have eq: "s' = s1" using respond_db[OF r] .
            show ?thesis
            proof (rule created[OF u ne p o fv])
              show "vote_create s newId u oid = Inr (s', v)" using Inr sv eq by simp
              show "respond e s' pid ''Vote submitted successfully'' v = (r, s', ems)"
                using r eq by simp
            qed
          qed
        next
          case (Some ev)
          note fv = this
          show ?thesis
          proof (cases "pollOptionId ev = oid")
            case True
            show ?thesis using assms
              by (intro dup[OF u ne p o fv True]) (simp_all add: submitVote_def u ne p o fv True)
          next
            case neq: False
            show ?thesis
            proof (cases "vote_update s (vote_id ev) oid")
              case (Inl err)
              show ?thesis using assms
                by (intro upd_err[OF u ne p o fv neq Inl])
                   (simp_all add: submitVote_def u ne p o fv neq Inl)
            next
              case (Inr sv)
              obtain s1 v where sv: "sv = (s1, v)" by (cases sv)
              have r: "respond e s1 pid ''Vote updated successfully'' v = (r, s', ems)"
                using assms by (simp add: submitVote_def u ne p o fv neq Inr sv)
              have eq: "s' = s1" using respond_db[OF r] .
              show ?thesis
              proof (rule moved[OF u ne p o fv neq])
                show "vote_update s (vote_id ev) oid = Inr (s', v)" using Inr sv eq by simp
                show "respond e s' pid ''Vote updated successfully'' v = (r, s', ems)"
                  using r eq by simp
              qed
            qed
          qed
        qed
      qed
    qed
  qed
qed


lemma repoint_on_poll:
  assumes d: "distinct (map option_id (poll_options s))"
    and ids: "distinct (map vote_id (votes s))"
    and ev: "ev \<in> set (votes s)" "vote_id ev = vid" "on_poll s pid ev"
    and opt: "opt \<in> set (poll_options s)" "option_id opt = oid" "pollId opt = pid"
    and w: "w \<in> set (votes s)"
  shows "on_poll s pid' (if vote_id w = vid then w\<lparr>pollOptionId := oid\<rparr> else w) = on_poll s pid' w"
proof (cases "vote_id w = vid")
  case True
  have inj_id: "inj_on vote_id (set (votes s))" using ids by (simp add: distinct_map)
  have weq: "w = ev" using inj_onD[OF inj_id _ w ev(1)] ev(2) True by simp
  have new: "on_poll s pid (w\<lparr>pollOptionId := oid\<rparr>)" unfolding on_poll_iff using opt by auto
  have "on_poll s pid' (w\<lparr>pollOptionId := oid\<rparr>) \<longleftrightarrow> pid' = pid"
    by (rule on_poll_only[OF d new])
  moreover have "on_poll s pid' w \<longleftrightarrow> pid' = pid"
    unfolding weq by (rule on_poll_only[OF d ev(3)])
  ultimately show ?thesis using True by simp
next
  case False
  then show ?thesis by simp
qed

lemma length_filter_map_same:
  assumes "\<And>w. w \<in> set xs \<Longrightarrow> P (f w) = P w"
  shows "length (filter P (map f xs)) = length (filter P xs)"
  using assms by (induction xs) auto

lemma foldl_add_sum: "foldl (\<lambda>sum x. sum + f x) (a::nat) xs = a + sum_list (map f xs)"
  by (induction xs arbitrary: a) auto

lemma sum_indicator_distinct:
  "distinct (map k xs) \<Longrightarrow>
     sum_list (map (\<lambda>x. if y = k x then 1 else 0) xs) = (if y \<in> k ` set xs then 1 else (0::nat))"
  by (induction xs) auto

lemma sum_counts_distinct:
  assumes "distinct (map k xs)"
  shows "sum_list (map (\<lambda>x. length (filter (\<lambda>v. g v = k x) vs)) xs) =
         length (filter (\<lambda>v. g v \<in> k ` set xs) vs)"
proof (induction vs)
  case Nil
  then show ?case by simp
next
  case (Cons a vs)
  have "sum_list (map (\<lambda>x. length (filter (\<lambda>v. g v = k x) (a # vs))) xs) =
        sum_list (map (\<lambda>x. (if g a = k x then 1 else 0) + length (filter (\<lambda>v. g v = k x) vs)) xs)"
    by (rule arg_cong[where f = sum_list]) auto
  also have "\<dots> = sum_list (map (\<lambda>x. if g a = k x then 1 else 0) xs) +
                   sum_list (map (\<lambda>x. length (filter (\<lambda>v. g v = k x) vs)) xs)"
    by (simp add: sum_list_addf)
  also have "\<dots> = (if g a \<in> k ` set xs then 1 else 0) + length (filter (\<lambda>v. g v \<in> k ` set xs) vs)"
    by (simp only: sum_indicator_distinct[OF assms] Cons.IH)
  finally show ?case by simp
qed

lemma totalVotes_pollData:
  assumes "distinct (map option_id (poll_options s))"
  shows "totalVotes (pollData s p) = length (poll_votes s (poll_id p))"
proof -
  have d: "distinct (map option_id (options_of s p))"
    unfolding options_of_def by (rule distinct_map_filter[OF assms])
  have mem: "on_poll s (poll_id p) v \<longleftrightarrow> pollOptionId v \<in> option_id ` set (options_of s p)" for v
    unfolding on_poll_iff options_of_def by force
  have "totalVotes (pollData s p) = sum_list (map (count_votes s) (options_of s p))"
    by (simp add: pollData_def foldl_add_sum)
  also have "\<dots> = length (filter (\<lambda>v. pollOptionId v \<in> option_id ` set (options_of s p)) (votes s))"
    unfolding count_votes_def by (rule sum_counts_distinct[OF d])
  also have "filter (\<lambda>v. pollOptionId v \<in> option_id ` set (options_of s p)) (votes s) =
             filter (on_poll s (poll_id p)) (votes s)"
    by (rule filter_cong) (simp_all add: mem)
  finally show ?thesis by (simp add: poll_votes_def)
qed


lemma submitVote_tables:
  assumes "submitVote e s user pid oid newId = (r, s', ems)"
  shows "polls s' = polls s \<and> poll_options s' = poll_options s"
  using assms
proof (cases rule: submitVote_cases)
  case (moved u p ev v)
  from vote_update_Inr[OF moved(7)] show ?thesis by auto
next
  case (created u p v)
  from vote_create_Inr[OF created(6)] show ?thesis by auto
qed auto

lemma submitVote_wf:
  assumes "wf_db s" "submitVote e s user pid oid newId = (r, s', ems)"
  shows "wf_db s'"
  using assms(2)
proof (cases rule: submitVote_cases)
  case (moved u p ev v)
  then show ?thesis using vote_update_wf[OF assms(1)] by blast
next
  case (created u p v)
  then show ?thesis using vote_create_wf[OF assms(1)] by blast
qed (use assms(1) in auto)

lemma target_option:
  assumes "findPublishedPoll s pid = Some p" "options_where_id s p oid \<noteq> []"
  obtains opt where "opt \<in> set (poll_options s)" "option_id opt = oid" "pollId opt = pid"
  using assms findPublishedPoll_Some[OF assms(1)] by (auto simp: options_where_id_nonempty)

lemma submitVote_one_vote:
  assumes wf: "wf_db s" and one: "\<forall>u pid. length (votes_of s u pid) \<le> 1"
    and run: "submitVote e s user pid oid newId = (r, s', ems)"
  shows "length (votes_of s' u' pid') \<le> 1"
  using run
proof (cases rule: submitVote_cases)
  case (moved u p ev v)
  obtain opt where opt: "opt \<in> set (poll_options s)" "option_id opt = oid" "pollId opt = pid"
    using target_option[OF moved(3,4)] .
  have d: "distinct (map option_id (poll_options s))" and ids: "distinct (map vote_id (votes s))"
    using wf by (auto simp: wf_db_def)
  have ev: "ev \<in> set (votes s)" "on_poll s pid ev"
    using findFirstVote_Some[OF moved(5)] by auto
  have s': "s' = s\<lparr>votes := map (\<lambda>w. if vote_id w = vote_id ev then w\<lparr>pollOptionId := oid\<rparr> else w) (votes s)\<rparr>"
    using vote_update_Inr[OF moved(7)] by auto
  show ?thesis
    unfolding s' votes_of_update_length[OF d ids ev(1) refl ev(2) opt] using one by simp
next
  case (created u p v)
  obtain opt where opt: "opt \<in> set (poll_options s)" "option_id opt = oid" "pollId opt = pid"
    using target_option[OF created(3,4)] .
  have d: "distinct (map option_id (poll_options s))" using wf by (auto simp: wf_db_def)
  have v: "userId v = u" "pollOptionId v = oid" and s': "s' = s\<lparr>votes := votes s @ [v]\<rparr>"
    using vote_create_Inr[OF created(6)] by auto
  have none: "votes_of s u pid = []" using created(5) by (simp add: findFirstVote_None)
  show ?thesis
    unfolding s' votes_of_create[OF d opt v] using one none by auto
qed (use one in auto)

subsection \<open>The scenario stores\<close>

lemmas scenario_defs = poll1_def poll2_def optA_def optB_def optC_def voteA1_def voteB1_def
  db_fresh_def db_voted_def db_twice_def env_live_def

lemma wf_db_voted: "wf_db db_voted"
  by (simp add: wf_db_def scenario_defs)

lemma wf_db_twice: "wf_db db_twice"
  by (simp add: wf_db_def scenario_defs)

lemma wf_db_fresh: "wf_db db_fresh"
  by (simp add: wf_db_def scenario_defs)

lemma one_vote_db_voted: "length (votes_of db_voted u pid) \<le> 1"
  by (simp add: votes_of_def db_voted_def)

lemma votes_of_db_twice: "votes_of db_twice ''u1'' ''p1'' = [voteA1, voteB1]"
  by (simp add: votes_of_def on_poll_def scenario_defs)

subsection \<open>One vote per user and poll\<close>

text \<open>
  The unique index of the votes table is on the user and the option. With the vote of
  \<open>u1\<close> for option \<open>a\<close> stored, the insert of a vote of \<open>u1\<close> for option \<open>b\<close>
  of the same poll passes every constraint of the storage layer, and the store then
  holds two votes of \<open>u1\<close> on poll \<open>p1\<close>.
\<close>

theorem storage_admits_second_vote_on_poll:
  "wf_db db_voted \<and> votes_of db_voted ''u1'' ''p1'' = [voteA1] \<and>
   vote_create db_voted ''v2'' ''u1'' ''b'' = Inr (db_twice, voteB1) \<and>
   wf_db db_twice \<and> votes_of db_twice ''u1'' ''p1'' = [voteA1, voteB1]"
proof -
  have "votes_of db_voted ''u1'' ''p1'' = [voteA1]"
    by (simp add: votes_of_def on_poll_def scenario_defs)
  moreover have "vote_create db_voted ''v2'' ''u1'' ''b'' = Inr (db_twice, voteB1)"
    by (simp add: vote_create_def Let_def scenario_defs)
  ultimately show ?thesis using wf_db_voted wf_db_twice votes_of_db_twice by simp
qed

text \<open>
  C1, as the code has it. The storage layer keeps primary keys and the pair of user and
  option unique (\<open>wf_db\<close>); that a user has at most one vote on a poll is kept by the
  handler: a call of \<open>submitVote\<close> on a store with at most one vote for every user and
  poll leaves such a store, whatever its outcome.
\<close>

theorem submitVote_keeps_one_vote_per_poll:
  assumes "wf_db s" and "\<forall>u pid. length (votes_of s u pid) \<le> 1"
    and "submitVote e s user pid oid newId = (r, s', ems)"
  shows "wf_db s' \<and> (\<forall>u pid. length (votes_of s' u pid) \<le> 1)"
  using submitVote_wf[OF assms(1,3)] submitVote_one_vote[OF assms] by blast

lemma submitVote_revote_scenario:
  "submitVote env_live db_voted (Some ''u1'') ''p1'' ''b'' ''v9'' =
     (Inr \<lparr>message = ''Vote updated successfully'', resp_id = ''v1'', resp_pollOptionId = ''b''\<rparr>,
      db_voted\<lparr>votes := [voteA1\<lparr>pollOptionId := ''b''\<rparr>]\<rparr>,
      [(ToRoom ''poll-p1'', PollUpdated
          \<lparr>pd_id = ''p1'', pd_question = ''Tea or coffee?'',
           pd_options = [\<lparr>od_id = ''a'', od_text = ''Tea'', voteCount = 0\<rparr>,
                         \<lparr>od_id = ''b'', od_text = ''Coffee'', voteCount = 1\<rparr>],
           totalVotes = 1\<rparr>)])"
  by (simp add: submitVote_def findPublishedPoll_def options_where_id_def options_of_def
      findFirstVote_def on_poll_def vote_update_def respond_def broadcastVoteUpdate_def
      broadcastVoteUpdate_try_def findPoll_def pollData_def count_votes_def roomName_def
      Let_def scenario_defs)


lemmas handler_defs = submitVote_def findPublishedPoll_def options_where_id_def options_of_def
  findFirstVote_def on_poll_def vote_update_def vote_create_def respond_def
  broadcastVoteUpdate_def broadcastVoteUpdate_try_def findPoll_def pollData_def count_votes_def
  roomName_def Let_def

theorem submitVote_keeps_one_vote_per_poll_witness:
  "wf_db db_voted \<and> (\<forall>u pid. length (votes_of db_voted u pid) \<le> 1) \<and>
   submitVote env_live db_voted (Some ''u1'') ''p1'' ''b'' ''v9'' =
     (Inr \<lparr>message = ''Vote updated successfully'', resp_id = ''v1'', resp_pollOptionId = ''b''\<rparr>,
      db_voted\<lparr>votes := [voteA1\<lparr>pollOptionId := ''b''\<rparr>]\<rparr>,
      [(ToRoom ''poll-p1'', PollUpdated
          \<lparr>pd_id = ''p1'', pd_question = ''Tea or coffee?'',
           pd_options = [\<lparr>od_id = ''a'', od_text = ''Tea'', voteCount = 0\<rparr>,
                         \<lparr>od_id = ''b'', od_text = ''Coffee'', voteCount = 1\<rparr>],
           totalVotes = 1\<rparr>)]) \<and>
   wf_db (db_voted\<lparr>votes := [voteA1\<lparr>pollOptionId := ''b''\<rparr>]\<rparr>) \<and>
   (\<forall>u pid. length (votes_of (db_voted\<lparr>votes := [voteA1\<lparr>pollOptionId := ''b''\<rparr>]\<rparr>) u pid) \<le> 1)"
proof -
  have one: "\<forall>u pid. length (votes_of db_voted u pid) \<le> 1"
    using one_vote_db_voted by blast
  show ?thesis
    using submitVote_keeps_one_vote_per_poll[OF wf_db_voted one submitVote_revote_scenario]
      wf_db_voted one submitVote_revote_scenario by blast
qed

subsection \<open>Moving a vote, and voting twice for the same option\<close>

lemma filter_Cons_find: "filter P xs = v # vs \<Longrightarrow> find P xs = Some v"
  by (induction xs) (auto split: if_splits)

lemma find_by_key:
  "distinct (map k xs) \<Longrightarrow> x \<in> set xs \<Longrightarrow> find (\<lambda>v. k v = k x) xs = Some x"
  by (induction xs) (auto simp: image_iff)

lemma votes_of_mem:
  "w \<in> set (votes_of s u pid) \<longleftrightarrow> w \<in> set (votes s) \<and> userId w = u \<and> on_poll s pid w"
  by (auto simp: votes_of_def)

lemma revote_update_ok:
  assumes wf: "wf_db s"
    and opt: "opt \<in> set (poll_options s)" "option_id opt = oid" "pollId opt = pid"
    and one: "votes_of s u pid = [ev]"
  shows "vote_update s (vote_id ev) oid =
         Inr (s\<lparr>votes := map (\<lambda>w. if vote_id w = vote_id ev then w\<lparr>pollOptionId := oid\<rparr> else w) (votes s)\<rparr>,
              ev\<lparr>pollOptionId := oid\<rparr>)"
proof -
  have ev: "ev \<in> set (votes s)" "userId ev = u" "on_poll s pid ev"
    using votes_of_mem[of ev s u pid] one by auto
  have ids: "distinct (map vote_id (votes s))" using wf by (simp add: wf_db_def)
  have f: "find (\<lambda>v. vote_id v = vote_id ev) (votes s) = Some ev"
    by (rule find_by_key[OF ids ev(1)])
  have "\<not> list_ex (\<lambda>w. vote_id w \<noteq> vote_id ev \<and> userId w = userId ev \<and> pollOptionId w = oid) (votes s)"
  proof
    assume "list_ex (\<lambda>w. vote_id w \<noteq> vote_id ev \<and> userId w = userId ev \<and> pollOptionId w = oid) (votes s)"
    then obtain w where w: "w \<in> set (votes s)" "vote_id w \<noteq> vote_id ev" "userId w = userId ev"
      "pollOptionId w = oid" by (auto simp: list_ex_iff)
    have "on_poll s pid w" unfolding on_poll_iff using opt w(4) by auto
    then have "w \<in> set (votes_of s u pid)" using w ev(2) by (simp add: votes_of_mem)
    then show False using one w(2) by simp
  qed
  then show ?thesis by (simp add: vote_update_def f)
qed

text \<open>
  C3. Precondition of the ledger as in the contract (the poll is published and the option
  is one of its options). A user whose vote on the poll is the row \<open>ev\<close>, on another
  option, and who votes for option \<open>oid\<close>: the call answers "Vote updated successfully",
  the same row now points at \<open>oid\<close>, no row is added, and the total of the poll's
  snapshot is what it was.
\<close>

theorem revote_moves_existing_vote:
  assumes wf: "wf_db s" and u: "u \<noteq> []"
    and fp: "findPublishedPoll s pid = Some p"
    and opt: "opt \<in> set (poll_options s)" "option_id opt = oid" "pollId opt = pid"
    and one: "votes_of s u pid = [ev]"
    and neq: "pollOptionId ev \<noteq> oid"
    and run: "submitVote e s (Some u) pid oid newId = (r, s', ems)"
  shows "r = Inr \<lparr>message = ''Vote updated successfully'', resp_id = vote_id ev,
                  resp_pollOptionId = oid\<rparr> \<and>
         votes s' = map (\<lambda>w. if vote_id w = vote_id ev then w\<lparr>pollOptionId := oid\<rparr> else w) (votes s) \<and>
         length (votes s') = length (votes s) \<and>
         votes_of s' u pid = [ev\<lparr>pollOptionId := oid\<rparr>] \<and>
         totalVotes (pollData s' p) = totalVotes (pollData s p)"
proof -
  let ?f = "\<lambda>w. if vote_id w = vote_id ev then w\<lparr>pollOptionId := oid\<rparr> else w"
  let ?s1 = "s\<lparr>votes := map ?f (votes s)\<rparr>"
  have pid: "poll_id p = pid" using findPublishedPoll_Some[OF fp] by simp
  have o: "options_where_id s p oid \<noteq> []"
    unfolding options_where_id_nonempty using opt pid by auto
  have fv: "findFirstVote s u pid = Some ev"
    unfolding findFirstVote_def using one filter_Cons_find[of _ "votes s" ev "[]"]
    by (simp add: votes_of_def)
  have up: "vote_update s (vote_id ev) oid = Inr (?s1, ev\<lparr>pollOptionId := oid\<rparr>)"
    by (rule revote_update_ok[OF wf opt one])
  have eq: "submitVote e s (Some u) pid oid newId =
            respond e ?s1 pid ''Vote updated successfully'' (ev\<lparr>pollOptionId := oid\<rparr>)"
    by (simp add: submitVote_def u fp o fv neq up)
  have resp: "respond e ?s1 pid ''Vote updated successfully'' (ev\<lparr>pollOptionId := oid\<rparr>) = (r, s', ems)"
    using run eq by simp
  have s': "s' = ?s1" using respond_db[OF resp] .
  have r: "r = Inr \<lparr>message = ''Vote updated successfully'', resp_id = vote_id ev,
                    resp_pollOptionId = oid\<rparr>"
    using respond_ok[OF resp] by simp
  have d: "distinct (map option_id (poll_options s))" and ids: "distinct (map vote_id (votes s))"
    using wf by (auto simp: wf_db_def)
  have ev: "ev \<in> set (votes s)" "userId ev = u" "on_poll s pid ev"
    using votes_of_mem[of ev s u pid] one by auto
  have same: "on_poll s pid' (?f w) = on_poll s pid' w" if "w \<in> set (votes s)" for w pid'
    by (rule repoint_on_poll[OF d ids ev(1) refl ev(3) opt that])
  have "votes_of ?s1 u pid = filter (\<lambda>v. userId v = u \<and> on_poll s pid v) (map ?f (votes s))"
    by (simp add: votes_of_def)
  also have "\<dots> = map ?f (filter ((\<lambda>v. userId v = u \<and> on_poll s pid v) \<circ> ?f) (votes s))"
    by (simp only: filter_map)
  also have "filter ((\<lambda>v. userId v = u \<and> on_poll s pid v) \<circ> ?f) (votes s) =
             filter (\<lambda>v. userId v = u \<and> on_poll s pid v) (votes s)"
  proof (rule filter_cong)
    show "votes s = votes s" by simp
  next
    fix w assume w: "w \<in> set (votes s)"
    show "((\<lambda>v. userId v = u \<and> on_poll s pid v) \<circ> ?f) w = (userId w = u \<and> on_poll s pid w)"
      using same[OF w, of pid] by (simp add: o_def)
  qed
  also have "map ?f (filter (\<lambda>v. userId v = u \<and> on_poll s pid v) (votes s)) = [ev\<lparr>pollOptionId := oid\<rparr>]"
    using one by (simp add: votes_of_def)
  finally have vo: "votes_of ?s1 u pid = [ev\<lparr>pollOptionId := oid\<rparr>]" .
  have "length (poll_votes ?s1 pid) = length (poll_votes s pid)"
    unfolding poll_votes_def using length_filter_map_same[of "votes s" "on_poll s pid" ?f] same
    by simp
  then have tot: "totalVotes (pollData ?s1 p) = totalVotes (pollData s p)"
    using totalVotes_pollData[of ?s1 p] totalVotes_pollData[OF d, of p] d pid by simp
  show ?thesis using r s' vo tot by simp
qed


theorem revote_moves_existing_vote_witness:
  "wf_db db_voted \<and> findPublishedPoll db_voted ''p1'' = Some poll1 \<and>
   optB \<in> set (poll_options db_voted) \<and> votes_of db_voted ''u1'' ''p1'' = [voteA1] \<and>
   pollOptionId voteA1 \<noteq> ''b'' \<and>
   votes (db_voted\<lparr>votes := [voteA1\<lparr>pollOptionId := ''b''\<rparr>]\<rparr>) = [voteA1\<lparr>pollOptionId := ''b''\<rparr>] \<and>
   votes_of (db_voted\<lparr>votes := [voteA1\<lparr>pollOptionId := ''b''\<rparr>]\<rparr>) ''u1'' ''p1'' =
     [voteA1\<lparr>pollOptionId := ''b''\<rparr>] \<and>
   totalVotes (pollData (db_voted\<lparr>votes := [voteA1\<lparr>pollOptionId := ''b''\<rparr>]\<rparr>) poll1) =
     totalVotes (pollData db_voted poll1)"
proof -
  have fp: "findPublishedPoll db_voted ''p1'' = Some poll1"
    by (simp add: findPublishedPoll_def scenario_defs)
  have opt: "optB \<in> set (poll_options db_voted)" "option_id optB = ''b''" "pollId optB = ''p1''"
    by (simp_all add: scenario_defs)
  have one: "votes_of db_voted ''u1'' ''p1'' = [voteA1]"
    by (simp add: votes_of_def on_poll_def scenario_defs)
  have neq: "pollOptionId voteA1 \<noteq> ''b''" by (simp add: voteA1_def)
  have u: "''u1'' \<noteq> []" by simp
  show ?thesis
    using revote_moves_existing_vote[OF wf_db_voted u fp opt one neq submitVote_revote_scenario]
      wf_db_voted fp opt one neq by (simp add: db_voted_def)
qed

lemma vote_update_Inl:
  assumes "vote_update s vid oid = Inl err" "v \<in> set (votes s)" "vote_id v = vid"
  shows "err = PrismaClientKnownRequestError ''P2002''"
proof -
  have "find (\<lambda>v. vote_id v = vid) (votes s) \<noteq> None"
    using assms(2,3) by (auto simp: find_None_iff)
  then show ?thesis using assms(1)
    by (auto simp: vote_update_def split: option.splits if_splits)
qed

text \<open>
  C4. A user with a vote row \<open>ev\<close> on option \<open>oid\<close> of a published poll who votes for
  \<open>oid\<close> again gets an error that the handler answers with status 409; the store is
  the one before the call and nothing is emitted. When \<open>ev\<close> is the user's only row
  on the poll, the error is the handler's own "You have already voted for this option".
\<close>

theorem duplicate_vote_is_conflict:
  assumes wf: "wf_db s" and u: "u \<noteq> []"
    and fp: "findPublishedPoll s pid = Some p"
    and ev: "ev \<in> set (votes s)" "userId ev = u" "pollOptionId ev = oid" "on_poll s pid ev"
    and run: "submitVote e s (Some u) pid oid newId = (r, s', ems)"
  shows "(\<exists>err. r = Inl err \<and> statusCode err = 409) \<and> s' = s \<and> ems = [] \<and>
         (votes_of s u pid = [ev] \<longrightarrow>
            r = Inl (CustomError ''You have already voted for this option'' 409))"
proof -
  have inj_id: "inj_on vote_id (set (votes s))" using wf by (simp add: wf_db_def distinct_map)
  have found: "findFirstVote s u pid \<noteq> None"
    using ev by (auto simp: findFirstVote_def find_None_iff)
  have single: "findFirstVote s u pid = Some ev" if "votes_of s u pid = [ev]"
    unfolding findFirstVote_def using that filter_Cons_find[of _ "votes s" ev "[]"]
    by (simp add: votes_of_def)
  from run show ?thesis
  proof (cases rule: submitVote_cases)
    case unauth
    then show ?thesis using u by simp
  next
    case (nopoll u')
    then show ?thesis using fp by simp
  next
    case (noopt u' p')
    then have "options_where_id s p oid = []" using fp by simp
    moreover have "options_where_id s p oid \<noteq> []"
      unfolding options_where_id_nonempty using ev(3,4) findPublishedPoll_Some[OF fp]
      by (auto simp: on_poll_iff)
    ultimately show ?thesis by simp
  next
    case (dup u' p' ev')
    then show ?thesis by (simp add: statusCode_def)
  next
    case (upd_err u' p' ev' err)
    have ev': "ev' \<in> set (votes s)" using findFirstVote_Some[OF upd_err(5)] by simp
    have err: "err = PrismaClientKnownRequestError ''P2002''"
      by (rule vote_update_Inl[OF upd_err(7) ev' refl])
    have "votes_of s u pid \<noteq> [ev]"
    proof
      assume "votes_of s u pid = [ev]"
      then have "findFirstVote s u pid = Some ev" by (rule single)
      then show False using upd_err(1,5,6) ev(3) by simp
    qed
    then show ?thesis using upd_err err by (simp add: statusCode_def)
  next
    case (moved u' p' ev' v)
    have ev': "ev' \<in> set (votes s)" "userId ev' = u"
      using findFirstVote_Some[OF moved(5)] moved(1) by auto
    from vote_update_Inr[OF moved(7)] obtain v0 where
      f: "find (\<lambda>v. vote_id v = vote_id ev') (votes s) = Some v0" and
      free: "\<forall>w \<in> set (votes s). vote_id w \<noteq> vote_id ev' \<longrightarrow>
               \<not> (userId w = userId v0 \<and> pollOptionId w = oid)"
      by blast
    have "find (\<lambda>v. vote_id v = vote_id ev') (votes s) = Some ev'"
      using find_by_key[of vote_id "votes s" ev'] wf ev'(1) by (simp add: wf_db_def)
    then have v0: "v0 = ev'" using f by simp
    have "vote_id ev \<noteq> vote_id ev'"
    proof
      assume "vote_id ev = vote_id ev'"
      then have "ev = ev'" using inj_onD[OF inj_id _ ev(1) ev'(1)] by simp
      then show False using moved(6) ev(3) by simp
    qed
    then have False using free ev ev'(2) v0 by auto
    then show ?thesis ..
  next
    case (create_err u' p' err)
    then show ?thesis using found by simp
  next
    case (created u' p' v)
    then show ?thesis using found by simp
  qed
qed

lemma submitVote_duplicate_scenario:
  "submitVote env_live db_voted (Some ''u1'') ''p1'' ''a'' ''v9'' =
     (Inl (CustomError ''You have already voted for this option'' 409), db_voted, [])"
  by (simp add: handler_defs scenario_defs)

theorem duplicate_vote_is_conflict_witness:
  "wf_db db_voted \<and> findPublishedPoll db_voted ''p1'' = Some poll1 \<and>
   voteA1 \<in> set (votes db_voted) \<and> userId voteA1 = ''u1'' \<and> pollOptionId voteA1 = ''a'' \<and>
   on_poll db_voted ''p1'' voteA1 \<and> votes_of db_voted ''u1'' ''p1'' = [voteA1] \<and>
   submitVote env_live db_voted (Some ''u1'') ''p1'' ''a'' ''v9'' =
     (Inl (CustomError ''You have already voted for this option'' 409), db_voted, []) \<and>
   statusCode (CustomError ''You have already voted for this option'' 409) = 409"
proof -
  have fp: "findPublishedPoll db_voted ''p1'' = Some poll1"
    by (simp add: findPublishedPoll_def scenario_defs)
  have ev: "voteA1 \<in> set (votes db_voted)" "userId voteA1 = ''u1''" "pollOptionId voteA1 = ''a''"
    "on_poll db_voted ''p1'' voteA1"
    by (simp_all add: on_poll_def scenario_defs)
  have one: "votes_of db_voted ''u1'' ''p1'' = [voteA1]"
    by (simp add: votes_of_def on_poll_def scenario_defs)
  have u: "''u1'' \<noteq> []" by simp
  show ?thesis
    using duplicate_vote_is_conflict[OF wf_db_voted u fp ev submitVote_duplicate_scenario]
      wf_db_voted fp ev one submitVote_duplicate_scenario by (simp add: statusCode_def)
qed

subsection \<open>Calls the ledger refuses\<close>

text \<open>
  Poll \<open>p1\<close> is published and option \<open>c\<close> belongs to poll \<open>p2\<close>: the vote is refused
  as an invalid option with status 400, not as something that was not found (404).
\<close>

theorem foreign_option_is_bad_request:
  "findPublishedPoll db_fresh ''p1'' = Some poll1 \<and>
   options_where_id db_fresh poll1 ''c'' = [] \<and>
   submitVote env_live db_fresh (Some ''u1'') ''p1'' ''c'' ''v9'' =
     (Inl (CustomError ''Invalid poll option'' 400), db_fresh, []) \<and>
   statusCode (CustomError ''Invalid poll option'' 400) = 400 \<and>
   statusCode (CustomError ''Invalid poll option'' 400) \<noteq> 404"
  by (simp add: handler_defs scenario_defs statusCode_def)

text \<open>
  C5, as the code has it. A call of an authenticated user for a poll that is missing or
  not published fails with the one error "Poll not found or not published" (404); for
  an option that is not an option of the published poll it fails with "Invalid poll
  option" (400). In both cases the store is the one before the call and nothing is
  emitted.
\<close>

theorem submitVote_rejects_bad_target:
  assumes u: "u \<noteq> []" and run: "submitVote e s (Some u) pid oid newId = (r, s', ems)"
  shows "(\<not> (\<exists>p \<in> set (polls s). poll_id p = pid \<and> isPublished p) \<longrightarrow>
            r = Inl (CustomError ''Poll not found or not published'' 404) \<and> s' = s \<and> ems = []) \<and>
         ((\<exists>p \<in> set (polls s). poll_id p = pid \<and> isPublished p) \<and>
          \<not> (\<exists>opt \<in> set (poll_options s). option_id opt = oid \<and> pollId opt = pid) \<longrightarrow>
            r = Inl (CustomError ''Invalid poll option'' 400) \<and> s' = s \<and> ems = [])"
proof -
  have A: "r = Inl (CustomError ''Poll not found or not published'' 404) \<and> s' = s \<and> ems = []"
    if "\<not> (\<exists>p \<in> set (polls s). poll_id p = pid \<and> isPublished p)"
  proof -
    have "findPublishedPoll s pid = None" using that by (simp add: findPublishedPoll_None)
    then show ?thesis using run u by (simp add: submitVote_def)
  qed
  have B: "r = Inl (CustomError ''Invalid poll option'' 400) \<and> s' = s \<and> ems = []"
    if a: "\<exists>p \<in> set (polls s). poll_id p = pid \<and> isPublished p"
      and b: "\<not> (\<exists>opt \<in> set (poll_options s). option_id opt = oid \<and> pollId opt = pid)"
  proof -
    have "findPublishedPoll s pid \<noteq> None" using a by (simp add: findPublishedPoll_None)
    then obtain p where fp: "findPublishedPoll s pid = Some p" by auto
    have "poll_id p = pid" using findPublishedPoll_Some[OF fp] by simp
    then have "options_where_id s p oid = []"
      using b options_where_id_nonempty[of s p oid] by auto
    then show ?thesis using run u fp by (simp add: submitVote_def)
  qed
  from A B show ?thesis by blast
qed

theorem submitVote_rejects_bad_target_witness:
  "\<not> (\<exists>p \<in> set (polls db_voted). poll_id p = ''p2'' \<and> isPublished p) \<and>
   submitVote env_live db_voted (Some ''u1'') ''p2'' ''c'' ''v9'' =
     (Inl (CustomError ''Poll not found or not published'' 404), db_voted, []) \<and>
   (\<exists>p \<in> set (polls db_fresh). poll_id p = ''p1'' \<and> isPublished p) \<and>
   \<not> (\<exists>opt \<in> set (poll_options db_fresh). option_id opt = ''c'' \<and> pollId opt = ''p1'') \<and>
   submitVote env_live db_fresh (Some ''u1'') ''p1'' ''c'' ''v9'' =
     (Inl (CustomError ''Invalid poll option'' 400), db_fresh, [])"
proof -
  obtain r s' ems where run1: "submitVote env_live db_voted (Some ''u1'') ''p2'' ''c'' ''v9'' = (r, s', ems)"
    by (metis prod_cases3)
  obtain r2 s2 ems2 where run2: "submitVote env_live db_fresh (Some ''u1'') ''p1'' ''c'' ''v9'' = (r2, s2, ems2)"
    by (metis prod_cases3)
  have u: "''u1'' \<noteq> []" by simp
  have h1: "\<not> (\<exists>p \<in> set (polls db_voted). poll_id p = ''p2'' \<and> isPublished p)"
    by (simp add: scenario_defs)
  have h2: "(\<exists>p \<in> set (polls db_fresh). poll_id p = ''p1'' \<and> isPublished p)"
    by (simp add: scenario_defs)
  have h3: "\<not> (\<exists>opt \<in> set (poll_options db_fresh). option_id opt = ''c'' \<and> pollId opt = ''p1'')"
    by (simp add: scenario_defs)
  show ?thesis
    using submitVote_rejects_bad_target[OF u run1] submitVote_rejects_bad_target[OF u run2]
      h1 h2 h3 run1 run2 by simp
qed

subsection \<open>The broadcast never fails its caller\<close>

text \<open>
  C10. Whatever throws inside it, \<open>broadcastVoteUpdate\<close> returns normally; for a poll
  identifier that no stored poll has it emits nothing; and the handler, once its write
  is done, answers with the response whether or not the broadcast went through.
\<close>

theorem broadcastVoteUpdate_is_silent:
  "fst (broadcastVoteUpdate f s pid) = Inr () \<and>
   (pid \<notin> poll_id ` set (polls s) \<longrightarrow> broadcastVoteUpdate f s pid = (Inr (), [])) \<and>
   fst (respond e s pid msg v) =
     Inr \<lparr>message = msg, resp_id = vote_id v, resp_pollOptionId = pollOptionId v\<rparr>"
proof -
  have A: "fst (broadcastVoteUpdate f s pid) = Inr ()" by (rule broadcastVoteUpdate_ok)
  have B: "broadcastVoteUpdate f s pid = (Inr (), [])" if "pid \<notin> poll_id ` set (polls s)"
  proof -
    have "findPoll s pid = None" using that by (auto simp: findPoll_def find_None_iff)
    then show ?thesis by (simp add: broadcastVoteUpdate_def broadcastVoteUpdate_try_def)
  qed
  obtain r s' ems where "respond e s pid msg v = (r, s', ems)" by (metis prod_cases3)
  then have C: "fst (respond e s pid msg v) =
     Inr \<lparr>message = msg, resp_id = vote_id v, resp_pollOptionId = pollOptionId v\<rparr>"
    using respond_ok[of e s pid msg v r s' ems] by simp
  from A B C show ?thesis by blast
qed

theorem broadcastVoteUpdate_is_silent_witness:
  "''p9'' \<notin> poll_id ` set (polls db_voted) \<and>
   broadcastVoteUpdate NoFault db_voted ''p9'' = (Inr (), []) \<and>
   broadcastVoteUpdate QueryThrows db_voted ''p1'' = (Inr (), []) \<and>
   broadcastVoteUpdate EmitThrows db_voted ''p1'' = (Inr (), [])"
proof -
  have h: "''p9'' \<notin> poll_id ` set (polls db_voted)" by (simp add: scenario_defs)
  have "broadcastVoteUpdate QueryThrows db_voted ''p1'' = (Inr (), [])"
    "broadcastVoteUpdate EmitThrows db_voted ''p1'' = (Inr (), [])"
    by (simp_all add: handler_defs scenario_defs)
  then show ?thesis
    using broadcastVoteUpdate_is_silent[of NoFault db_voted "''p9''" env_live "''m''" voteA1] h
    by simp
qed

subsection \<open>Joining a poll room\<close>

lemma snapshots_to_join:
  "snapshots_to sid [(ToSocket sid, PollDataMsg d), (ToRoomExcept room sid, UserJoinedPoll n)] = [d]"
  by (simp add: snapshots_to_def)

text \<open>
  C8. A \<open>join-poll\<close> event that names a published poll puts the socket into the room
  of the poll and sends it exactly one snapshot, whose total is the number of vote rows
  on the poll in the store at that moment. Any other event (no string, the empty
  string, no poll with that identifier, a poll that is not published) is answered with
  one error message to the socket, and neither the rooms nor the socket change.
\<close>

theorem join_poll_gate_and_snapshot:
  assumes wf: "wf_db s" and run: "join_poll s rs sock arg = (rs', sock', ems)"
  shows "(\<forall>pid. arg = PString pid \<and> pid \<noteq> [] \<and>
                (\<exists>p \<in> set (polls s). poll_id p = pid \<and> isPublished p) \<longrightarrow>
            socket_id sock \<in> rs' (roomName pid) \<and>
            roomName pid \<in> currentPollRooms sock' \<and>
            (\<exists>d. snapshots_to (socket_id sock) ems = [d] \<and>
                 pd_id d = pid \<and> totalVotes d = length (poll_votes s pid))) \<and>
         (\<not> (\<exists>pid. arg = PString pid \<and> pid \<noteq> [] \<and>
                (\<exists>p \<in> set (polls s). poll_id p = pid \<and> isPublished p)) \<longrightarrow>
            rs' = rs \<and> sock' = sock \<and>
            (\<exists>m. ems = [(ToSocket (socket_id sock), ErrorMsg m)]))"
proof -
  have d: "distinct (map option_id (poll_options s))" using wf by (simp add: wf_db_def)
  have A: "socket_id sock \<in> rs' (roomName pid) \<and> roomName pid \<in> currentPollRooms sock' \<and>
           (\<exists>d. snapshots_to (socket_id sock) ems = [d] \<and>
                pd_id d = pid \<and> totalVotes d = length (poll_votes s pid))"
    if arg: "arg = PString pid" and ne: "pid \<noteq> []"
      and pub: "\<exists>p \<in> set (polls s). poll_id p = pid \<and> isPublished p" for pid
  proof -
    have "findPublishedPoll s pid \<noteq> None" using pub by (simp add: findPublishedPoll_None)
    then obtain p where fp: "findPublishedPoll s pid = Some p" by auto
    have pid: "poll_id p = pid" using findPublishedPoll_Some[OF fp] by simp
    have tot: "totalVotes (pollData s p) = length (poll_votes s pid)"
      using totalVotes_pollData[OF d, of p] pid by simp
    have id: "pd_id (pollData s p) = pid" using pid by (simp add: pollData_def)
    show ?thesis
      using run tot id by (auto simp: join_poll_def arg ne fp Let_def snapshots_to_join)
  qed
  have B: "rs' = rs \<and> sock' = sock \<and> (\<exists>m. ems = [(ToSocket (socket_id sock), ErrorMsg m)])"
    if no: "\<not> (\<exists>pid. arg = PString pid \<and> pid \<noteq> [] \<and>
                (\<exists>p \<in> set (polls s). poll_id p = pid \<and> isPublished p))"
  proof (cases arg)
    case POther
    then show ?thesis using run by (auto simp: join_poll_def)
  next
    case (PString pid)
    show ?thesis
    proof (cases "pid = []")
      case True
      then show ?thesis using run PString by (auto simp: join_poll_def)
    next
      case False
      then have "findPublishedPoll s pid = None"
        using no PString by (simp add: findPublishedPoll_None)
      then show ?thesis using run PString False by (auto simp: join_poll_def)
    qed
  qed
  from A B show ?thesis by blast
qed


lemma join_poll_scenario:
  "join_poll db_voted (\<lambda>r. {}) \<lparr>socket_id = ''s1'', socket_userId = ''u2'', currentPollRooms = {}\<rparr>
     (PString ''p1'') =
   ((\<lambda>r. {})(''poll-p1'' := {''s1''}),
    \<lparr>socket_id = ''s1'', socket_userId = ''u2'', currentPollRooms = {''poll-p1''}\<rparr>,
    [(ToSocket ''s1'', PollDataMsg
        \<lparr>pd_id = ''p1'', pd_question = ''Tea or coffee?'',
         pd_options = [\<lparr>od_id = ''a'', od_text = ''Tea'', voteCount = 1\<rparr>,
                       \<lparr>od_id = ''b'', od_text = ''Coffee'', voteCount = 0\<rparr>],
         totalVotes = 1\<rparr>),
     (ToRoomExcept ''poll-p1'' ''s1'', UserJoinedPoll 1)])"
  by (simp add: join_poll_def userCount_joined_def handler_defs scenario_defs)

lemma join_poll_draft_scenario:
  "join_poll db_voted (\<lambda>r. {}) \<lparr>socket_id = ''s1'', socket_userId = ''u2'', currentPollRooms = {}\<rparr>
     (PString ''p2'') =
   (\<lambda>r. {}, \<lparr>socket_id = ''s1'', socket_userId = ''u2'', currentPollRooms = {}\<rparr>,
    [(ToSocket ''s1'', ErrorMsg ''Poll not found or not published'')])"
  by (simp add: join_poll_def handler_defs scenario_defs)

theorem join_poll_gate_and_snapshot_witness:
  "wf_db db_voted \<and>
   (\<exists>p \<in> set (polls db_voted). poll_id p = ''p1'' \<and> isPublished p) \<and>
   ''s1'' \<in> ((\<lambda>r. {})(''poll-p1'' := {''s1''})) (roomName ''p1'') \<and>
   length (poll_votes db_voted ''p1'') = 1 \<and>
   \<not> (\<exists>p \<in> set (polls db_voted). poll_id p = ''p2'' \<and> isPublished p) \<and>
   join_poll db_voted (\<lambda>r. {}) \<lparr>socket_id = ''s1'', socket_userId = ''u2'', currentPollRooms = {}\<rparr>
     (PString ''p2'') =
   (\<lambda>r. {}, \<lparr>socket_id = ''s1'', socket_userId = ''u2'', currentPollRooms = {}\<rparr>,
    [(ToSocket ''s1'', ErrorMsg ''Poll not found or not published'')])"
proof -
  have pub: "\<exists>p \<in> set (polls db_voted). poll_id p = ''p1'' \<and> isPublished p"
    by (simp add: scenario_defs)
  have nopub: "\<not> (\<exists>p \<in> set (polls db_voted). poll_id p = ''p2'' \<and> isPublished p)"
    by (simp add: scenario_defs)
  have cnt: "length (poll_votes db_voted ''p1'') = 1"
    by (simp add: poll_votes_def on_poll_def scenario_defs)
  have no2: "\<not> (\<exists>pid. PString ''p2'' = PString pid \<and> pid \<noteq> [] \<and>
                (\<exists>p \<in> set (polls db_voted). poll_id p = pid \<and> isPublished p))"
    using nopub by simp
  show ?thesis
    using join_poll_gate_and_snapshot[OF wf_db_voted join_poll_scenario]
      join_poll_gate_and_snapshot[OF wf_db_voted join_poll_draft_scenario]
      pub nopub cnt no2 wf_db_voted join_poll_draft_scenario
    by simp
qed

subsection \<open>The publication flag\<close>

lemma poll_update_db:
  "poll_update s pid f = Inr (s', p) \<Longrightarrow>
     s' = s\<lparr>polls := map (\<lambda>r. if poll_id r = pid then f r else r) (polls s)\<rparr>"
  by (auto simp: poll_update_def split: option.splits)

lemma updatePoll_db:
  "fst (snd (updatePoll e s pid q pub)) = s \<or>
   fst (snd (updatePoll e s pid q pub)) =
     s\<lparr>polls := map (\<lambda>r. if poll_id r = pid then update_data q pub r else r) (polls s)\<rparr>"
  by (auto simp: updatePoll_def dest: poll_update_db split: sum.splits prod.splits)

lemma publishPoll_db:
  "fst (snd (publishPoll e s pid)) = s \<or>
   fst (snd (publishPoll e s pid)) =
     s\<lparr>polls := map (\<lambda>r. if poll_id r = pid then r\<lparr>isPublished := True\<rparr> else r) (polls s)\<rparr>"
  by (auto simp: publishPoll_def dest: poll_update_db split: sum.splits prod.splits)

lemma update_data_id [simp]: "poll_id (update_data q pub p) = poll_id p"
  by (simp add: update_data_def Let_def split: option.splits)

lemma update_data_published:
  "isPublished (update_data q pub p) = (case pub of None \<Rightarrow> isPublished p | Some b \<Rightarrow> b)"
  by (simp add: update_data_def Let_def split: option.splits)

text \<open>
  The creator of the published poll \<open>p1\<close> sends \<open>PUT /p1\<close> with
  \<open>{ isPublished: false }\<close>: the request passes the ownership check and the poll is a
  draft again.
\<close>

theorem updatePoll_unpublishes:
  "findPoll db_fresh ''p1'' = Some poll1 \<and> isPublished poll1 \<and>
   requirePollOwnership db_fresh (Some ''u0'') ''p1'' = None \<and>
   findPoll (apply_op env_live db_fresh (UpdatePoll (Some ''u0'') ''p1'' None (Some False))) ''p1'' =
     Some (poll1\<lparr>isPublished := False\<rparr>) \<and>
   \<not> isPublished (poll1\<lparr>isPublished := False\<rparr>)"
  by (simp add: requirePollOwnership_def updatePoll_def poll_update_def update_data_def
      findPoll_def scenario_defs)


lemma stays_published_map:
  assumes "p \<in> set ps" "isPublished p"
    and "\<And>r. poll_id (f r) = poll_id r" "poll_id p = pid \<Longrightarrow> isPublished (f p)"
  shows "\<exists>p' \<in> set (map (\<lambda>r. if poll_id r = pid then f r else r) ps).
           poll_id p' = poll_id p \<and> isPublished p'"
proof (cases "poll_id p = pid")
  case True
  then have "f p \<in> set (map (\<lambda>r. if poll_id r = pid then f r else r) ps)"
    using assms(1) by (auto simp: image_iff intro!: bexI[of _ p])
  then show ?thesis using assms(3,4) True by blast
next
  case False
  then have "p \<in> set (map (\<lambda>r. if poll_id r = pid then f r else r) ps)"
    using assms(1) by (auto simp: image_iff intro!: bexI[of _ p])
  then show ?thesis using assms(2) by blast
qed

text \<open>
  C9, as the code has it. A published poll is still published after \<open>publishPoll\<close>,
  after \<open>submitVote\<close>, and after every \<open>updatePoll\<close> whose request does not carry
  \<open>isPublished: false\<close> for this poll. An \<open>updatePoll\<close> of the creator with
  \<open>isPublished: false\<close> leaves the poll unpublished.
\<close>

theorem published_until_update_says_false:
  assumes p: "p \<in> set (polls s)" and pub: "isPublished p"
  shows "((\<forall>user q. op \<noteq> UpdatePoll user (poll_id p) q (Some False)) \<longrightarrow>
            (\<exists>p' \<in> set (polls (apply_op e s op)). poll_id p' = poll_id p \<and> isPublished p')) \<and>
         (wf_db s \<and> poll_id p \<noteq> [] \<longrightarrow>
            (\<forall>p' \<in> set (polls (apply_op e s
                        (UpdatePoll (Some (creatorId p)) (poll_id p) q (Some False)))).
               poll_id p' = poll_id p \<longrightarrow> \<not> isPublished p'))"
proof -
  have here: "\<exists>p' \<in> set (polls s). poll_id p' = poll_id p \<and> isPublished p'"
    using p pub by blast
  have A: "\<exists>p' \<in> set (polls (apply_op e s op)). poll_id p' = poll_id p \<and> isPublished p'"
    if ok: "\<forall>user q. op \<noteq> UpdatePoll user (poll_id p) q (Some False)"
  proof (cases op)
    case (UpdatePoll user pid q' b)
    have keep: "isPublished (update_data q' b p)" if "poll_id p = pid"
      using ok UpdatePoll that pub by (cases b) (auto simp: update_data_published)
    have upd: "\<exists>p' \<in> set (map (\<lambda>r. if poll_id r = pid then update_data q' b r else r) (polls s)).
           poll_id p' = poll_id p \<and> isPublished p'"
      by (rule stays_published_map[OF p pub]) (simp_all add: keep)
    show ?thesis
    proof (cases "requirePollOwnership s user pid")
      case None
      then show ?thesis
        using updatePoll_db[of e s pid q' b] here upd UpdatePoll by auto
    next
      case (Some a)
      then show ?thesis using here UpdatePoll by simp
    qed
  next
    case (PublishPoll user pid)
    have upd: "\<exists>p' \<in> set (map (\<lambda>r. if poll_id r = pid then r\<lparr>isPublished := True\<rparr> else r) (polls s)).
           poll_id p' = poll_id p \<and> isPublished p'"
      by (rule stays_published_map[OF p pub]) simp_all
    show ?thesis
    proof (cases "requirePollOwnership s user pid")
      case None
      then show ?thesis
        using publishPoll_db[of e s pid] here upd PublishPoll by auto
    next
      case (Some a)
      then show ?thesis using here PublishPoll by simp
    qed
  next
    case (SubmitVote x)
    obtain r s' ems where c: "call e s x = (r, s', ems)" by (metis prod_cases3)
    then have "polls s' = polls s" using submitVote_tables[of e s _ _ _ _ r s' ems]
      by (simp add: call_def)
    then show ?thesis using here SubmitVote c by simp
  qed
  have B: "\<forall>p' \<in> set (polls (apply_op e s
                        (UpdatePoll (Some (creatorId p)) (poll_id p) q (Some False)))).
               poll_id p' = poll_id p \<longrightarrow> \<not> isPublished p'"
    if wf: "wf_db s" and ne: "poll_id p \<noteq> []"
  proof -
    have "distinct (map poll_id (polls s))" using wf by (simp add: wf_db_def)
    then have f: "findPoll s (poll_id p) = Some p"
      unfolding findPoll_def by (rule find_by_key[OF _ p])
    have own: "requirePollOwnership s (Some (creatorId p)) (poll_id p) = None"
      by (simp add: requirePollOwnership_def ne f)
    have "polls (apply_op e s (UpdatePoll (Some (creatorId p)) (poll_id p) q (Some False))) =
          map (\<lambda>r. if poll_id r = poll_id p then update_data q (Some False) r else r) (polls s)"
      by (simp add: own updatePoll_def poll_update_def f)
    then show ?thesis by (auto simp: update_data_published)
  qed
  from A B show ?thesis by blast
qed

theorem published_until_update_says_false_witness:
  "poll1 \<in> set (polls db_fresh) \<and> isPublished poll1 \<and> wf_db db_fresh \<and> poll_id poll1 \<noteq> [] \<and>
   (\<exists>p' \<in> set (polls (apply_op env_live db_fresh (PublishPoll (Some ''u0'') ''p1''))).
      poll_id p' = poll_id poll1 \<and> isPublished p') \<and>
   polls (apply_op env_live db_fresh (UpdatePoll (Some ''u0'') ''p1'' None (Some False))) =
     [poll1\<lparr>isPublished := False\<rparr>, poll2]"
proof -
  have p: "poll1 \<in> set (polls db_fresh)" and pub: "isPublished poll1"
    and ne: "poll_id poll1 \<noteq> []"
    by (simp_all add: scenario_defs)
  have ok: "\<forall>user q. PublishPoll (Some ''u0'') ''p1'' \<noteq> UpdatePoll user (poll_id poll1) q (Some False)"
    by simp
  have after: "polls (apply_op env_live db_fresh (UpdatePoll (Some ''u0'') ''p1'' None (Some False))) =
     [poll1\<lparr>isPublished := False\<rparr>, poll2]"
    by (simp add: requirePollOwnership_def updatePoll_def poll_update_def update_data_def
        findPoll_def scenario_defs)
  show ?thesis
    using published_until_update_says_false[OF p pub, of "PublishPoll (Some ''u0'') ''p1''" env_live None]
      p pub ne ok wf_db_fresh after by blast
qed

subsection \<open>One fresh broadcast for every change\<close>

lemma roomName_inj [simp]: "roomName a = roomName b \<longleftrightarrow> a = b"
  by (simp add: roomName_def)

lemma findPoll_Some: "findPoll s pid = Some p \<Longrightarrow> p \<in> set (polls s) \<and> poll_id p = pid"
  by (auto simp: findPoll_def find_Some_iff)

lemma findPoll_of_published:
  assumes "findPublishedPoll s pid = Some p"
  shows "\<exists>p'. findPoll s pid = Some p'"
proof -
  have "findPoll s pid \<noteq> None"
    using findPublishedPoll_Some[OF assms] by (auto simp: findPoll_def find_None_iff)
  then show ?thesis by auto
qed

lemma respond_live:
  assumes "io_ready e" "broadcast_fault e = NoFault" "findPoll s pid = Some p"
  shows "respond e s pid msg v =
           (Inr \<lparr>message = msg, resp_id = vote_id v, resp_pollOptionId = pollOptionId v\<rparr>, s,
            [(ToRoom (roomName pid), PollUpdated (pollData s p))])"
  using assms by (simp add: respond_def broadcastVoteUpdate_def broadcastVoteUpdate_try_def)

lemma submitVote_emits:
  assumes io: "io_ready e" and nf: "broadcast_fault e = NoFault"
    and run: "submitVote e s user pid oid newId = (r, s', ems)"
  shows "case r of
           Inl err \<Rightarrow> ems = []
         | Inr resp \<Rightarrow> \<exists>p. findPoll s' pid = Some p \<and>
                           ems = [(ToRoom (roomName pid), PollUpdated (pollData s' p))]"
proof -
  have tabs: "polls s' = polls s" using submitVote_tables[OF run] by simp
  have live: "case r of
           Inl err \<Rightarrow> ems = []
         | Inr resp \<Rightarrow> \<exists>p. findPoll s' pid = Some p \<and>
                           ems = [(ToRoom (roomName pid), PollUpdated (pollData s' p))]"
    if fp: "findPublishedPoll s pid = Some p0" and resp: "respond e s' pid msg v = (r, s', ems)"
    for p0 msg v
  proof -
    obtain p where "findPoll s pid = Some p" using findPoll_of_published[OF fp] by auto
    then have p: "findPoll s' pid = Some p" using tabs by (simp add: findPoll_def)
    have "r = Inr \<lparr>message = msg, resp_id = vote_id v, resp_pollOptionId = pollOptionId v\<rparr>"
      and "ems = [(ToRoom (roomName pid), PollUpdated (pollData s' p))]"
      using resp respond_live[OF io nf p, of msg v] by auto
    then show ?thesis using p by simp
  qed
  from run show ?thesis
  proof (cases rule: submitVote_cases)
    case (moved u p ev v)
    then show ?thesis using live by blast
  next
    case (created u p v)
    then show ?thesis using live by blast
  qed simp_all
qed

lemma submitVote_total_mono:
  assumes wf: "wf_db s" and run: "submitVote e s user pid oid newId = (r, s', ems)"
  shows "length (poll_votes s q) \<le> length (poll_votes s' q)"
  using run
proof (cases rule: submitVote_cases)
  case (moved u p ev v)
  obtain opt where opt: "opt \<in> set (poll_options s)" "option_id opt = oid" "pollId opt = pid"
    using target_option[OF moved(3,4)] .
  have d: "distinct (map option_id (poll_options s))" and ids: "distinct (map vote_id (votes s))"
    using wf by (auto simp: wf_db_def)
  have ev: "ev \<in> set (votes s)" "on_poll s pid ev"
    using findFirstVote_Some[OF moved(5)] by auto
  have s': "s' = s\<lparr>votes := map (\<lambda>w. if vote_id w = vote_id ev then w\<lparr>pollOptionId := oid\<rparr> else w) (votes s)\<rparr>"
    using vote_update_Inr[OF moved(7)] by auto
  have "length (filter (on_poll s q)
           (map (\<lambda>w. if vote_id w = vote_id ev then w\<lparr>pollOptionId := oid\<rparr> else w) (votes s))) =
        length (filter (on_poll s q) (votes s))"
    by (rule length_filter_map_same) (rule repoint_on_poll[OF d ids ev(1) refl ev(2) opt])
  then show ?thesis by (simp add: s' poll_votes_def)
next
  case (created u p v)
  have s': "s' = s\<lparr>votes := votes s @ [v]\<rparr>" using vote_create_Inr[OF created(6)] by auto
  show ?thesis by (simp add: s' poll_votes_def)
qed simp_all

lemma totals_seen_nil [simp]: "totals_seen q [] = []"
  by (simp add: totals_seen_def)

lemma totals_seen_append [simp]: "totals_seen q (a @ b) = totals_seen q a @ totals_seen q b"
  by (simp add: totals_seen_def)

lemma totals_seen_call:
  assumes wf: "wf_db s" and io: "io_ready e" and nf: "broadcast_fault e = NoFault"
    and run: "submitVote e s user pid oid newId = (r, s', ems)"
  shows "totals_seen q ems = [] \<or> totals_seen q ems = [length (poll_votes s' q)]"
proof (cases r)
  case (Inl err)
  then show ?thesis using submitVote_emits[OF io nf run] by simp
next
  case (Inr resp)
  then obtain p where p: "findPoll s' pid = Some p"
    and ems: "ems = [(ToRoom (roomName pid), PollUpdated (pollData s' p))]"
    using submitVote_emits[OF io nf run] by auto
  have d: "distinct (map option_id (poll_options s'))"
    using submitVote_wf[OF wf run] by (simp add: wf_db_def)
  have "totalVotes (pollData s' p) = length (poll_votes s' pid)"
    using totalVotes_pollData[OF d, of p] findPoll_Some[OF p] by simp
  then show ?thesis by (simp add: ems totals_seen_def)
qed

lemma run_votes_totals:
  assumes "wf_db s" "io_ready e" "broadcast_fault e = NoFault"
  shows "sorted (totals_seen q (concat (map (\<lambda>out. snd (snd out)) (run_votes e s qs)))) \<and>
         (\<forall>t \<in> set (totals_seen q (concat (map (\<lambda>out. snd (snd out)) (run_votes e s qs)))).
            length (poll_votes s q) \<le> t)"
  using assms(1)
proof (induction qs arbitrary: s)
  case Nil
  then show ?case by simp
next
  case (Cons x xs)
  obtain r s1 ems where c: "call e s x = (r, s1, ems)" by (metis prod_cases3)
  then have run: "submitVote e s (req_user x) (req_poll x) (req_option x) (req_newId x) = (r, s1, ems)"
    by (simp add: call_def)
  have wf1: "wf_db s1" by (rule submitVote_wf[OF Cons.prems run])
  let ?rest = "totals_seen q (concat (map (\<lambda>out. snd (snd out)) (run_votes e s1 xs)))"
  have ih: "sorted ?rest" "\<forall>t \<in> set ?rest. length (poll_votes s1 q) \<le> t"
    using Cons.IH[OF wf1] by auto
  have mono: "length (poll_votes s q) \<le> length (poll_votes s1 q)"
    by (rule submitVote_total_mono[OF Cons.prems run])
  have eq: "totals_seen q (concat (map (\<lambda>out. snd (snd out)) (run_votes e s (x # xs)))) =
            totals_seen q ems @ ?rest"
    by (simp add: c)
  from totals_seen_call[OF Cons.prems assms(2,3) run, of q]
  show ?case
  proof
    assume "totals_seen q ems = []"
    then show ?thesis unfolding eq using ih mono by auto
  next
    assume "totals_seen q ems = [length (poll_votes s1 q)]"
    then show ?thesis unfolding eq using ih mono by (auto simp: sorted_append)
  qed
qed

lemma run_votes_emits:
  assumes "io_ready e" "broadcast_fault e = NoFault"
    and "(x, (r, s', ems)) \<in> set (zip qs (run_votes e s qs))"
  shows "case r of
           Inl err \<Rightarrow> ems = []
         | Inr resp \<Rightarrow> \<exists>p. findPoll s' (req_poll x) = Some p \<and>
                           ems = [(ToRoom (roomName (req_poll x)), PollUpdated (pollData s' p))]"
  using assms(3)
proof (induction qs arbitrary: s)
  case Nil
  then show ?case by simp
next
  case (Cons y ys)
  from Cons.prems have "(x = y \<and> call e s y = (r, s', ems)) \<or>
      (x, (r, s', ems)) \<in> set (zip ys (run_votes e (fst (snd (call e s y))) ys))"
    by auto
  then show ?case
  proof
    assume "x = y \<and> call e s y = (r, s', ems)"
    then show ?thesis using submitVote_emits[OF assms(1,2), of s "req_user x" "req_poll x" "req_option x" "req_newId x" r s' ems]
      by (simp add: call_def)
  next
    assume "(x, (r, s', ems)) \<in> set (zip ys (run_votes e (fst (snd (call e s y))) ys))"
    then show ?thesis by (rule Cons.IH)
  qed
qed


text \<open>
  C6. With the socket server attached and the store and the emit working, in a
  sequence of calls every call that answers with a response (a vote created or moved)
  emits exactly one \<open>poll-updated\<close> event, to the room of its poll, carrying the
  snapshot computed from the store as the call left it; a failed call emits nothing.
  The totals a member of a poll's room reads off these events never decrease.
\<close>

theorem vote_broadcast_once_and_fresh:
  assumes wf: "wf_db s" and io: "io_ready e" and nf: "broadcast_fault e = NoFault"
  shows "(\<forall>(q, r, s', ems) \<in> set (zip qs (run_votes e s qs)).
            case r of
              Inl err \<Rightarrow> ems = []
            | Inr resp \<Rightarrow> \<exists>p. findPoll s' (req_poll q) = Some p \<and>
                  ems = [(ToRoom (roomName (req_poll q)), PollUpdated (pollData s' p))]) \<and>
         (\<forall>pid. sorted (totals_seen pid (concat (map (\<lambda>out. snd (snd out)) (run_votes e s qs)))))"
  using run_votes_emits[OF io nf, of _ _ _ _ qs s] run_votes_totals[OF wf io nf, of _ qs]
  by auto

lemma scenario_totals:
  "totals_seen ''p1'' (concat (map (\<lambda>out. snd (snd out)) (run_votes env_live db_fresh scenario_calls)))
     = [1, 2, 2]"
  by (simp add: scenario_calls_def call_def totals_seen_def handler_defs scenario_defs)

lemma scenario_tallies:
  "map (\<lambda>(t, m). case m of PollUpdated d \<Rightarrow> map voteCount (pd_options d) | _ \<Rightarrow> [])
     (concat (map (\<lambda>out. snd (snd out)) (run_votes env_live db_fresh scenario_calls)))
     = [[1, 0], [1, 1], [0, 2]]"
  by (simp add: scenario_calls_def call_def handler_defs scenario_defs)

theorem vote_broadcast_once_and_fresh_witness:
  "wf_db db_fresh \<and> io_ready env_live \<and> broadcast_fault env_live = NoFault \<and>
   map (\<lambda>(t, m). case m of PollUpdated d \<Rightarrow> map voteCount (pd_options d) | _ \<Rightarrow> [])
     (concat (map (\<lambda>out. snd (snd out)) (run_votes env_live db_fresh scenario_calls)))
     = [[1, 0], [1, 1], [0, 2]] \<and>
   totals_seen ''p1'' (concat (map (\<lambda>out. snd (snd out)) (run_votes env_live db_fresh scenario_calls)))
     = [1, 2, 2] \<and>
   sorted (totals_seen ''p1''
     (concat (map (\<lambda>out. snd (snd out)) (run_votes env_live db_fresh scenario_calls))))"
proof -
  have io: "io_ready env_live" and nf: "broadcast_fault env_live = NoFault"
    by (simp_all add: env_live_def)
  show ?thesis
    using vote_broadcast_once_and_fresh[OF wf_db_fresh io nf, of scenario_calls]
      wf_db_fresh io nf scenario_totals scenario_tallies by blast
qed

subsection \<open>Requests that interleave\<close>

lemma steps_Done [simp]: "steps e n ((q, Done r), s, out) = ((q, Done r), s, out)"
  by (induction n) auto

lemma exec_replicate:
  "i < length ts \<Longrightarrow>
   exec e (replicate n i) (ts, s, out) =
     (case steps e n (ts ! i, s, out) of (t', s', out') \<Rightarrow> (ts[i := t'], s', out'))"
proof (induction n arbitrary: ts s out)
  case 0
  then show ?case by simp
next
  case (Suc n)
  obtain t' s' ems where st: "step e s (ts ! i) = (t', s', ems)" by (metis prod_cases3)
  have "exec e (replicate (Suc n) i) (ts, s, out) = exec e (replicate n i) (ts[i := t'], s', out @ ems)"
    using Suc.prems st by simp
  also have "\<dots> = (case steps e n (ts[i := t'] ! i, s', out @ ems) of
                      (t'', s'', out') \<Rightarrow> (ts[i := t', i := t''], s'', out'))"
    using Suc.IH[of "ts[i := t']" s' "out @ ems"] Suc.prems by simp
  finally show ?case using Suc.prems st by simp
qed

lemma steps4: "steps e 4 c = steps e (Suc (Suc (Suc (Suc 0)))) c"
  by (simp add: eval_nat_numeral)

lemma steps_unauth:
  assumes "req_user q = None \<or> req_user q = Some []"
  shows "steps e 4 ((q, FindPoll), s, out) =
         ((q, Done (Inl (CustomError ''User not authenticated'' 401))), s, out)"
  using assms unfolding steps4 by auto

lemma task_is_call:
  "steps e 4 ((q, FindPoll), s, out) =
     (case call e s q of (r, s', ems) \<Rightarrow> ((q, Done r), s', out @ ems))"
proof (cases "req_user q")
  case None
  then show ?thesis by (simp add: steps_unauth call_def submitVote_def)
next
  case (Some u)
  note u = this
  show ?thesis
  proof (cases "u = []")
    case True
    then show ?thesis using u by (simp add: steps_unauth call_def submitVote_def)
  next
    case ne: False
    show ?thesis
    proof (cases "findPublishedPoll s (req_poll q)")
      case None
      then show ?thesis unfolding steps4 using u ne by (simp add: call_def submitVote_def)
    next
      case (Some p)
      note p = this
      show ?thesis
      proof (cases "options_where_id s p (req_option q) = []")
        case True
        then show ?thesis unfolding steps4 using u ne p by (simp add: call_def submitVote_def)
      next
        case o: False
        show ?thesis
        proof (cases "findFirstVote s u (req_poll q)")
          case None
          note fv = this
          show ?thesis
          proof (cases "vote_create s (req_newId q) u (req_option q)")
            case (Inl err)
            then show ?thesis unfolding steps4 using u ne p o fv
              by (simp add: call_def submitVote_def)
          next
            case (Inr sv)
            obtain s1 v where sv: "sv = (s1, v)" by (cases sv)
            show ?thesis unfolding steps4 using u ne p o fv Inr sv
              by (simp add: call_def submitVote_def respond_def after_write_def Let_def
                  split: prod.splits sum.splits)
          qed
        next
          case (Some ev)
          note fv = this
          show ?thesis
          proof (cases "pollOptionId ev = req_option q")
            case True
            then show ?thesis unfolding steps4 using u ne p o fv
              by (simp add: call_def submitVote_def)
          next
            case neq: False
            show ?thesis
            proof (cases "vote_update s (vote_id ev) (req_option q)")
              case (Inl err)
              then show ?thesis unfolding steps4 using u ne p o fv neq
                by (simp add: call_def submitVote_def)
            next
              case (Inr sv)
              obtain s1 v where sv: "sv = (s1, v)" by (cases sv)
              show ?thesis unfolding steps4 using u ne p o fv neq Inr sv
                by (simp add: call_def submitVote_def respond_def after_write_def Let_def
                    split: prod.splits sum.splits)
            qed
          qed
        qed
      qed
    qed
  qed
qed


text \<open>
  The two requests of \<open>u1\<close> take turns. After two steps each, both have looked for an
  existing vote of \<open>u1\<close> on \<open>p1\<close> and found none; after four steps each, both have
  answered "Vote submitted successfully" and the store holds two votes of \<open>u1\<close> on
  \<open>p1\<close>.
\<close>

theorem interleaved_requests_create_two_rows:
  "exec env_live [0, 1, 0, 1] ([(req_a, FindPoll), (req_b, FindPoll)], db_fresh, []) =
     ([(req_a, Write ''u1'' None), (req_b, Write ''u1'' None)], db_fresh, []) \<and>
   fst (exec env_live [0, 1, 0, 1, 0, 1, 0, 1] ([(req_a, FindPoll), (req_b, FindPoll)], db_fresh, [])) =
     [(req_a, Done (Inr \<lparr>message = ''Vote submitted successfully'', resp_id = ''v1'',
                          resp_pollOptionId = ''a''\<rparr>)),
      (req_b, Done (Inr \<lparr>message = ''Vote submitted successfully'', resp_id = ''v2'',
                          resp_pollOptionId = ''b''\<rparr>))] \<and>
   fst (snd (exec env_live [0, 1, 0, 1, 0, 1, 0, 1]
               ([(req_a, FindPoll), (req_b, FindPoll)], db_fresh, []))) = db_twice \<and>
   votes_of db_twice ''u1'' ''p1'' = [voteA1, voteB1]"
  by (simp add: req_a_def req_b_def after_write_def votes_of_def handler_defs scenario_defs)

text \<open>
  C2, as the code has it. The handler carries out its two reads and its write as
  separate store operations, without a transaction. When the four steps of a request
  run with no step of another request in between, they have the effect of the one call
  \<open>submitVote\<close> on the store they started from: the same answer, the same store, the
  same events; and from a store with at most one vote for every user and poll they
  lead to such a store.
\<close>

theorem uninterrupted_request_is_one_call:
  assumes i: "i < length ts" and t: "ts ! i = (q, FindPoll)"
  shows "exec e (replicate 4 i) (ts, s, out) =
           (case call e s q of (r, s', ems) \<Rightarrow> (ts[i := (q, Done r)], s', out @ ems)) \<and>
         (wf_db s \<and> (\<forall>u pid. length (votes_of s u pid) \<le> 1) \<longrightarrow>
            (\<forall>u pid. length (votes_of (fst (snd (call e s q))) u pid) \<le> 1))"
proof -
  obtain r s' ems where c: "call e s q = (r, s', ems)" by (metis prod_cases3)
  have A: "exec e (replicate 4 i) (ts, s, out) =
           (case call e s q of (r, s', ems) \<Rightarrow> (ts[i := (q, Done r)], s', out @ ems))"
    using exec_replicate[OF i, of e 4 s out] t task_is_call[of e q s out] c by simp
  have B: "\<forall>u pid. length (votes_of (fst (snd (call e s q))) u pid) \<le> 1"
    if "wf_db s" "\<forall>u pid. length (votes_of s u pid) \<le> 1"
    using submitVote_one_vote[OF that, of e "req_user q" "req_poll q" "req_option q" "req_newId q" r s' ems] c
    by (simp add: call_def)
  from A B show ?thesis by blast
qed

theorem uninterrupted_request_is_one_call_witness:
  "(1::nat) < length [(req_a, FindPoll), (req_b, FindPoll)] \<and>
   [(req_a, FindPoll), (req_b, FindPoll)] ! 1 = (req_b, FindPoll) \<and>
   wf_db db_voted \<and> (\<forall>u pid. length (votes_of db_voted u pid) \<le> 1) \<and>
   exec env_live (replicate 4 1) ([(req_a, FindPoll), (req_b, FindPoll)], db_voted, []) =
     (case call env_live db_voted req_b of
        (r, s', ems) \<Rightarrow> ([(req_a, FindPoll), (req_b, Done r)], s', ems)) \<and>
   fst (call env_live db_voted req_b) =
     Inr \<lparr>message = ''Vote updated successfully'', resp_id = ''v1'', resp_pollOptionId = ''b''\<rparr> \<and>
   (\<forall>u pid. length (votes_of (fst (snd (call env_live db_voted req_b))) u pid) \<le> 1)"
proof -
  have i: "(1::nat) < length [(req_a, FindPoll), (req_b, FindPoll)]" by simp
  have t: "[(req_a, FindPoll), (req_b, FindPoll)] ! 1 = (req_b, FindPoll)" by simp
  have one: "\<forall>u pid. length (votes_of db_voted u pid) \<le> 1"
    using one_vote_db_voted by blast
  have c: "fst (call env_live db_voted req_b) =
     Inr \<lparr>message = ''Vote updated successfully'', resp_id = ''v1'', resp_pollOptionId = ''b''\<rparr>"
    by (simp add: call_def req_b_def handler_defs scenario_defs)
  show ?thesis
    using uninterrupted_request_is_one_call[OF i t, of env_live db_voted "[]"]
      i t wf_db_voted one c by (simp split: prod.splits)
qed

subsection \<open>The results of a poll\<close>

lemma normalise_unfold:
  "normalise k m sc =
     (if k = 0 then (m, sc)
      else if m < 2 ^ 52 then normalise (k - 1) (2 * m) (sc / 2)
      else if 2 ^ 53 \<le> m then normalise (k - 1) (m / 2) (2 * sc)
      else (m, sc))"
  by (cases k) simp_all

lemma digits_unfold:
  "digits n = (if n < 10 then [digit_char n] else digits (n div 10) @ [digit_char (n mod 10)])"
  by (simp add: digits.simps[of n])

lemma floor_rat_numeral: "\<lfloor>(numeral a / numeral b :: rat)\<rfloor> = numeral a div numeral b"
  using floor_divide_of_int_eq[of "numeral a" "numeral b", where ?'a = rat] by simp

lemmas float_eval = js_divide_def js_times_def binary64_def binary64_pos_def normalise_unfold
  round_half_even_def toFixed1_def fixed1_def digits_unfold digit_char_def floor_rat_numeral Let_def

lemma round_half_even_near: "\<bar>of_int (round_half_even x) - x\<bar> \<le> 1 / 2"
proof -
  have "of_int \<lfloor>x\<rfloor> \<le> x" "x < of_int \<lfloor>x\<rfloor> + 1" by linarith+
  then show ?thesis
    unfolding round_half_even_def Let_def by (auto simp: abs_le_iff)
qed

lemma normalise_exact:
  "normalise k m sc = (m', sc') \<Longrightarrow> m' * sc' = m * sc"
  by (induction k m sc rule: normalise.induct) (auto split: if_splits)

lemma normalise_scale_pos:
  "normalise k m sc = (m', sc') \<Longrightarrow> 0 < sc \<Longrightarrow> 0 < sc'"
  by (induction k m sc rule: normalise.induct) (auto split: if_splits)

lemma normalise_reaches:
  "normalise k m sc = (m', sc') \<Longrightarrow> 2 ^ 52 \<le> m * 2 ^ k \<Longrightarrow> 2 ^ 52 \<le> m'"
proof (induction k m sc rule: normalise.induct)
  case (1 m sc)
  then show ?case by simp
next
  case (2 k m sc)
  show ?case
  proof (cases "m < 2 ^ 52")
    case True
    then show ?thesis using 2 by (simp add: mult.assoc)
  next
    case False
    show ?thesis
    proof (cases "(2::rat) ^ 53 \<le> m")
      case True
      have a: "(2::rat) ^ 52 \<le> m / 2" using True by simp
      have b: "(1::rat) \<le> 2 ^ k" by simp
      have "(2::rat) ^ 52 * 1 \<le> m / 2 * 2 ^ k"
        by (rule mult_mono[OF a b]) (use a in auto)
      then show ?thesis using 2 False True by simp
    next
      case F2: False
      then show ?thesis using 2 False by simp
    qed
  qed
qed


lemma binary64_pos_error:
  assumes x: "0 < x" and big: "1 \<le> x * 2 ^ 60"
  shows "\<bar>binary64_pos x - x\<bar> \<le> x / 2 ^ 53"
proof -
  obtain m sc where n: "normalise 1074 x 1 = (m, sc)" by (cases "normalise 1074 x 1")
  have ex: "m * sc = x" using normalise_exact[OF n] by simp
  have sc: "0 < sc" using normalise_scale_pos[OF n] by simp
  have "(2::rat) ^ 52 * 1 \<le> 2 ^ 1014 * (x * 2 ^ 60)"
    by (rule mult_mono) (use big in \<open>auto intro: power_increasing\<close>)
  also have "\<dots> = x * 2 ^ 1074" by (simp add: power_add[symmetric] mult.commute mult.left_commute)
  finally have "(2::rat) ^ 52 \<le> x * 2 ^ 1074" by simp
  then have m: "2 ^ 52 \<le> m" by (rule normalise_reaches[OF n])
  have "sc * 2 ^ 52 \<le> sc * m" using m sc by simp
  then have le: "sc * 2 ^ 52 \<le> x" using ex by (simp add: mult.commute)
  have "binary64_pos x = of_int (round_half_even m) * sc"
    by (simp add: binary64_pos_def n)
  then have "binary64_pos x - x = (of_int (round_half_even m) - m) * sc"
    by (simp add: ex[symmetric] algebra_simps)
  then have "\<bar>binary64_pos x - x\<bar> = \<bar>of_int (round_half_even m) - m\<bar> * sc"
    using sc by (simp add: abs_mult)
  also have "\<dots> \<le> 1 / 2 * sc"
    by (rule mult_right_mono[OF round_half_even_near]) (use sc in simp)
  also have "\<dots> \<le> x / 2 ^ 53" using le by simp
  finally show ?thesis .
qed

lemma binary64_of_pos: "0 < x \<Longrightarrow> binary64 x = binary64_pos x"
  by (simp add: binary64_def)

lemma percentage_value_near:
  assumes c: "0 < c" "c \<le> N" and N: "N < 2 ^ 40"
  shows "\<bar>js_times (js_divide c N) 100 - 100 * of_nat c / of_nat N\<bar> \<le> 300 / 2 ^ 53 \<and>
         0 < js_times (js_divide c N) 100"
proof -
  define Q :: rat where "Q = of_nat c / of_nat N"
  have Npos: "0 < (of_nat N :: rat)" using c by simp
  have Qpos: "0 < Q" using c by (simp add: Q_def)
  have Qle: "Q \<le> 1" using c by (simp add: Q_def)
  have "(of_nat N :: rat) < 2 ^ 40" using N by (metis of_nat_less_iff of_nat_numeral of_nat_power)
  then have "Q * 2 ^ 40 \<ge> of_nat c" using c Npos
    by (simp add: Q_def field_simps)
  moreover have "(1::rat) \<le> of_nat c" using c by simp
  ultimately have Qlow: "1 \<le> Q * 2 ^ 40" by linarith
  have big1: "1 \<le> Q * 2 ^ 60" using Qlow Qpos by simp
  define q1 where "q1 = binary64_pos Q"
  define u :: rat where "u = 1 / 2 ^ 53"
  have u: "0 < u" "u \<le> 1 / 2" by (simp_all add: u_def)
  have "\<bar>q1 - Q\<bar> \<le> Q / 2 ^ 53" unfolding q1_def by (rule binary64_pos_error[OF Qpos big1])
  then have e1: "q1 - Q \<le> Q * u" "Q - q1 \<le> Q * u"
    unfolding u_def abs_le_iff by simp_all
  have Qu: "Q * u \<le> Q * (1 / 2)" by (rule mult_left_mono) (use u Qpos in simp_all)
  have q1low: "Q / 2 \<le> q1" using e1 Qu by linarith
  have q1up: "q1 \<le> 2 * Q" using e1 Qu Qpos by linarith
  have q1pos: "0 < q1" using q1low Qpos by simp
  have x2pos: "0 < q1 * 100" using q1pos by simp
  have "1 \<le> Q / 2 * 100 * 2 ^ 60" using Qlow by simp
  also have "\<dots> \<le> q1 * 100 * 2 ^ 60" using q1low by simp
  finally have big2: "1 \<le> q1 * 100 * 2 ^ 60" .
  define y where "y = binary64_pos (q1 * 100)"
  have "\<bar>y - q1 * 100\<bar> \<le> q1 * 100 / 2 ^ 53"
    unfolding y_def by (rule binary64_pos_error[OF x2pos big2])
  then have e2: "y - q1 * 100 \<le> q1 * 100 * u" "q1 * 100 - y \<le> q1 * 100 * u"
    unfolding u_def abs_le_iff by simp_all
  have q1u: "q1 * u \<le> 2 * Q * u" by (rule mult_right_mono[OF q1up]) (use u in simp)
  have q1u2: "q1 * u \<le> q1 * (1 / 2)" by (rule mult_left_mono) (use u q1pos in simp_all)
  have ypos: "0 < y" using e2 q1u2 q1pos by linarith
  have Qu1: "Q * u \<le> 1 * u" by (rule mult_right_mono[OF Qle]) (use u in simp)
  have up: "y - 100 * Q \<le> 300 * u" using e1 e2 q1u Qu1 by linarith
  have down: "100 * Q - y \<le> 300 * u" using e1 e2 q1u Qu1 by linarith
  have near: "\<bar>y - 100 * Q\<bar> \<le> 300 / 2 ^ 53"
    using up down unfolding abs_le_iff u_def by simp
  have "js_divide c N = binary64 Q" by (simp add: js_divide_def Q_def)
  then have "js_divide c N = q1" using binary64_of_pos[OF Qpos] by (simp add: q1_def)
  then have eq: "js_times (js_divide c N) 100 = y"
    using binary64_of_pos[OF x2pos] by (simp add: js_times_def y_def)
  show ?thesis using near ypos by (simp add: eq Q_def)
qed


lemma tenths_near:
  assumes c: "c \<le> N" and N: "0 < N" "N < 2 ^ 40"
  shows "\<bar>of_nat (nat \<lfloor>js_times (js_divide c N) 100 * 10 + 1 / 2\<rfloor>) - 1000 * of_nat c / of_nat N\<bar>
           \<le> (1 / 2 :: rat)"
proof (cases "c = 0")
  case True
  then show ?thesis by (simp add: js_divide_def js_times_def binary64_def)
next
  case False
  then have cpos: "0 < c" by simp
  define y where "y = js_times (js_divide c N) 100"
  define t :: rat where "t = 1000 * of_nat c / of_nat N"
  define z where "z = \<lfloor>y * 10 + 1 / 2\<rfloor>"
  define dl :: rat where "dl = 3000 / 2 ^ 53"
  define d where "d = of_int z - t"
  define K :: int where "K = 2 * int N * z - 2000 * int c"
  have NR: "0 < (of_nat N :: rat)" using N by simp
  have "(of_nat N :: rat) < 2 ^ 40" using N(2) by (metis of_nat_less_iff of_nat_numeral of_nat_power)
  then have Ndl: "2 * of_nat N * dl < 1" by (simp add: dl_def)
  from percentage_value_near[OF cpos c N(2)]
  have "\<bar>y - 100 * of_nat c / of_nat N\<bar> \<le> 300 / 2 ^ 53" and ypos: "0 < y"
    by (simp_all add: y_def)
  then have ny: "y * 10 - t \<le> dl" "t - y * 10 \<le> dl"
    unfolding abs_le_iff t_def dl_def by simp_all
  have fl: "of_int z \<le> y * 10 + 1 / 2" "y * 10 + 1 / 2 < of_int z + 1"
    unfolding z_def by linarith+
  have zpos: "0 \<le> z" unfolding z_def using ypos by simp
  have d1: "d \<le> 1 / 2 + dl" using fl(1) ny(1) by (simp add: d_def)
  have d2: "- d \<le> 1 / 2 + dl" using fl(2) ny(2) by (simp add: d_def)
  have dK: "of_int K = 2 * of_nat N * d"
    using NR by (simp add: K_def d_def t_def field_simps)
  have "2 * of_nat N * d \<le> 2 * of_nat N * (1 / 2 + dl)"
    by (rule mult_left_mono[OF d1]) (use NR in simp)
  then have "(of_int K :: rat) < of_nat N + 1" using Ndl dK by (simp add: algebra_simps)
  then have "(of_int K :: rat) < of_int (int N + 1)" by simp
  then have K1: "K \<le> int N" unfolding of_int_less_iff by simp
  have "2 * of_nat N * (- d) \<le> 2 * of_nat N * (1 / 2 + dl)"
    by (rule mult_left_mono[OF d2]) (use NR in simp)
  then have "(of_int (- K) :: rat) < of_nat N + 1" using Ndl dK by (simp add: algebra_simps)
  then have "(of_int (- K) :: rat) < of_int (int N + 1)" by simp
  then have K2: "- K \<le> int N" unfolding of_int_less_iff by simp
  have "(of_int K :: rat) \<le> of_int (int N)" using K1 unfolding of_int_le_iff .
  then have a: "2 * of_nat N * d \<le> of_nat N * 1" using dK by simp
  have "(of_int (- K) :: rat) \<le> of_int (int N)" using K2 unfolding of_int_le_iff .
  then have b: "2 * of_nat N * (- d) \<le> of_nat N * 1" using dK by simp
  have "of_nat N * (2 * d) \<le> of_nat N * (1 :: rat)" using a by (simp only: mult_ac)
  then have a': "2 * d \<le> 1" using mult_le_cancel_left_pos[OF NR] by blast
  have "of_nat N * (2 * (- d)) \<le> of_nat N * (1 :: rat)" using b by (simp only: mult_ac)
  then have b': "2 * (- d) \<le> 1" using mult_le_cancel_left_pos[OF NR] by blast
  have "\<bar>d\<bar> \<le> 1 / 2" unfolding abs_le_iff using a' b' by linarith
  moreover have "of_nat (nat z) = (of_int z :: rat)" using zpos by simp
  ultimately show ?thesis by (simp add: d_def t_def z_def y_def)
qed


lemma digits_small: "n < 10 \<Longrightarrow> digits n = [digit_char n]"
  by (simp add: digits.simps[of n])

lemma digits_big: "\<not> n < 10 \<Longrightarrow> digits n = digits (n div 10) @ [digit_char (n mod 10)]"
  by (simp add: digits.simps[of n])

lemma digits_nonempty: "digits n \<noteq> []"
  by (cases "n < 10") (simp_all add: digits_small digits_big)

lemma fixed1_shape: "fixed1 n = digits (n div 10) @ ''.'' @ [digit_char (n mod 10)]"
proof (cases "n < 10")
  case True
  then show ?thesis by (simp add: fixed1_def digits_small digit_char_def)
next
  case False
  have "length (digits (n div 10)) \<noteq> 0" using digits_nonempty by simp
  then show ?thesis using False by (simp add: fixed1_def digits_big Let_def)
qed

text \<open>
  C7. For a poll with \<open>N\<close> votes, \<open>N\<close> below \<open>2^40\<close> so that the double arithmetic of
  the handler keeps its precision: the total of the results is \<open>N\<close> and the counts
  of the options add up to \<open>N\<close>; with no votes every percentage is the string \<open>0\<close>;
  with votes every percentage is a decimal numeral with one digit after the point,
  \<open>n / 10\<close>, where \<open>n\<close> is within one half of \<open>1000 * count / N\<close>, that is, the
  percentage is a tenth nearest to \<open>count / N * 100\<close>.
\<close>

theorem results_counts_and_percentages:
  assumes wf: "wf_db s" and res: "getPollResults s pid = Inr res"
    and small: "length (poll_votes s pid) < 2 ^ 40"
  shows "res_totalVotes res = length (poll_votes s pid) \<and>
         sum_list (map or_voteCount (res_options res)) = length (poll_votes s pid) \<and>
         (length (poll_votes s pid) = 0 \<longrightarrow>
            (\<forall>r \<in> set (res_options res). percentage r = ''0'')) \<and>
         (0 < length (poll_votes s pid) \<longrightarrow>
            (\<forall>r \<in> set (res_options res). \<exists>n.
               percentage r = digits (n div 10) @ ''.'' @ [digit_char (n mod 10)] \<and>
               \<bar>of_nat n - 1000 * of_nat (or_voteCount r) / of_nat (length (poll_votes s pid))\<bar>
                 \<le> (1 / 2 :: rat)))"
proof -
  define N where "N = length (poll_votes s pid)"
  obtain p where p: "findPoll s pid = Some p"
    using res by (auto simp: getPollResults_def split: option.splits)
  have pid: "poll_id p = pid" using findPoll_Some[OF p] by simp
  have d: "distinct (map option_id (poll_options s))" using wf by (simp add: wf_db_def)
  have tot: "foldl (\<lambda>sum opt. sum + count_votes s opt) 0 (options_of s p) = N"
    using totalVotes_pollData[OF d, of p] pid by (simp add: pollData_def N_def)
  have r: "res = \<lparr>res_pollId = poll_id p, res_question = question p, res_totalVotes = N,
                   res_options =
                     map (\<lambda>opt. \<lparr>or_id = option_id opt, or_text = option_text opt,
                                  or_voteCount = count_votes s opt,
                                  percentage =
                                    (if N > 0
                                     then toFixed1 (js_times (js_divide (count_votes s opt) N) 100)
                                     else ''0'')\<rparr>)
                         (options_of s p)\<rparr>"
    using res by (simp add: getPollResults_def p tot Let_def)
  have sum: "sum_list (map (count_votes s) (options_of s p)) = N"
    using tot by (simp add: foldl_add_sum)
  have A: "res_totalVotes res = N" by (simp add: r)
  have B: "sum_list (map or_voteCount (res_options res)) = N"
    using sum by (simp add: r o_def)
  have C: "\<forall>r \<in> set (res_options res). percentage r = ''0''" if "N = 0"
    using that by (auto simp: r)
  have D: "\<exists>n. percentage x = digits (n div 10) @ ''.'' @ [digit_char (n mod 10)] \<and>
               \<bar>of_nat n - 1000 * of_nat (or_voteCount x) / of_nat N\<bar> \<le> (1 / 2 :: rat)"
    if N: "0 < N" and x: "x \<in> set (res_options res)" for x
  proof -
    obtain opt where opt: "opt \<in> set (options_of s p)"
      and c: "or_voteCount x = count_votes s opt"
      and pc: "percentage x = toFixed1 (js_times (js_divide (count_votes s opt) N) 100)"
      using x N by (auto simp: r)
    have "count_votes s opt \<le> sum_list (map (count_votes s) (options_of s p))"
      using opt by (simp add: member_le_sum_list)
    then have le: "count_votes s opt \<le> N" using sum by simp
    let ?n = "nat \<lfloor>js_times (js_divide (count_votes s opt) N) 100 * 10 + 1 / 2\<rfloor>"
    have "percentage x = digits (?n div 10) @ ''.'' @ [digit_char (?n mod 10)]"
      by (simp only: pc toFixed1_def fixed1_shape)
    moreover have "\<bar>of_nat ?n - 1000 * of_nat (or_voteCount x) / of_nat N\<bar> \<le> (1 / 2 :: rat)"
      unfolding c using tenths_near[OF le N] small by (simp add: N_def)
    ultimately show ?thesis by blast
  qed
  from A B C D show ?thesis unfolding N_def by blast
qed

lemma results_scenario:
  "getPollResults db_three ''p1'' =
     Inr \<lparr>res_pollId = ''p1'', res_question = ''Tea or coffee?'', res_totalVotes = 3,
           res_options = [\<lparr>or_id = ''a'', or_text = ''Tea'', or_voteCount = 1, percentage = ''33.3''\<rparr>,
                          \<lparr>or_id = ''b'', or_text = ''Coffee'', or_voteCount = 2, percentage = ''66.7''\<rparr>]\<rparr>"
  by (simp add: getPollResults_def findPoll_def options_of_def count_votes_def db_three_def
      poll1_def poll2_def optA_def optB_def optC_def voteA1_def float_eval)


theorem results_counts_and_percentages_witness:
  "wf_db db_three \<and> length (poll_votes db_three ''p1'') = 3 \<and>
   length (poll_votes db_three ''p1'') < 2 ^ 40 \<and>
   getPollResults db_three ''p1'' =
     Inr \<lparr>res_pollId = ''p1'', res_question = ''Tea or coffee?'', res_totalVotes = 3,
           res_options = [\<lparr>or_id = ''a'', or_text = ''Tea'', or_voteCount = 1, percentage = ''33.3''\<rparr>,
                          \<lparr>or_id = ''b'', or_text = ''Coffee'', or_voteCount = 2, percentage = ''66.7''\<rparr>]\<rparr> \<and>
   (\<exists>n. ''33.3'' = digits (n div 10) @ ''.'' @ [digit_char (n mod 10)] \<and>
        \<bar>of_nat n - 1000 * of_nat 1 / of_nat 3\<bar> \<le> (1 / 2 :: rat))"
proof -
  have wf: "wf_db db_three"
    by (simp add: wf_db_def db_three_def poll1_def poll2_def optA_def optB_def optC_def voteA1_def)
  have n: "length (poll_votes db_three ''p1'') = 3"
    by (simp add: poll_votes_def on_poll_def db_three_def optA_def optB_def optC_def voteA1_def)
  have small: "length (poll_votes db_three ''p1'') < 2 ^ 40" by (simp add: n)
  show ?thesis
    using results_counts_and_percentages[OF wf results_scenario small] wf n small results_scenario
    by simp
qed

end
